theory Spec2Isabelle
  imports Main "HOL-Library.AList"
begin

section \<open>Strings of the ticket form\<close>

text \<open>
  The front end is one JavaScript file, \<^verbatim>\<open>app.js\<close>, running in a browser; the repository
  holds two revisions of it. The later one negotiates follow-up questions before the
  ticket is filed; its functions are modelled under their own names, \<open>parseUserId\<close>,
  \<open>confirmUser\<close> and \<open>submitForm\<close>. The earlier one, under \<^verbatim>\<open>TicketFormPrototype/frontend\<close>,
  files the ticket directly; its \<^verbatim>\<open>parseUserId\<close> is the same function, and its other two are
  modelled as \<open>confirmUser_prototype\<close> and \<open>submitForm_prototype\<close>.

  A JavaScript string is modelled as a \<^typ>\<open>string\<close> whose characters are the code units
  U+0000 to U+00FF (Latin-1), which covers the Norwegian texts of the program; the letter
  o-slash is \<open>CHR 0xF8\<close> and a-ring is \<open>CHR 0xE5\<close>.
\<close>

definition code :: "char \<Rightarrow> nat" where
  "code c = of_char c"

text \<open>
  \<^verbatim>\<open>String.prototype.trim\<close> removes white space and line terminators from both ends.
  Among the code units up to U+00FF these are TAB, LF, VT, FF, CR, SPACE and NBSP.
\<close>

definition is_space :: "char \<Rightarrow> bool" where
  "is_space c = (code c \<in> {0x09, 0x0A, 0x0B, 0x0C, 0x0D, 0x20, 0xA0})"

definition trim :: "string \<Rightarrow> string" where
  "trim s = rev (dropWhile is_space (rev (dropWhile is_space s)))"

text \<open>
  \<^verbatim>\<open>String.prototype.toLowerCase\<close>: in Latin-1 the upper-case letters are A to Z and
  U+00C0 to U+00DE without the multiplication sign U+00D7; each has its lower-case
  letter 32 code units higher.
\<close>

definition lower_char :: "char \<Rightarrow> char" where
  "lower_char c =
     (if (0x41 \<le> code c \<and> code c \<le> 0x5A) \<or> (0xC0 \<le> code c \<and> code c \<le> 0xDE \<and> code c \<noteq> 0xD7)
      then char_of (code c + 0x20) else c)"

definition toLowerCase :: "string \<Rightarrow> string" where
  "toLowerCase s = map lower_char s"

text \<open>The regular expression class \<^verbatim>\<open>\d\<close> is the ten ASCII digits.\<close>

definition is_digit :: "char \<Rightarrow> bool" where
  "is_digit c = (0x30 \<le> code c \<and> code c \<le> 0x39)"

section \<open>Identity parser: \<^verbatim>\<open>parseUserId\<close>\<close>

text \<open>
  \<^verbatim>\<open>/^user(\d{1,2})$/\<close> is run the way a regular expression engine runs it: the literal
  \<^verbatim>\<open>user\<close> at the start, then the greedy quantifier takes up to two digits, then the
  end anchor (there is no \<^verbatim>\<open>m\<close> flag, so \<^verbatim>\<open>$\<close> is the end of the input). Giving a
  digit back cannot help the anchor, since the next character is then a digit.
  The result is the capture group \<^verbatim>\<open>m[1]\<close>, or \<open>None\<close> where \<^verbatim>\<open>match\<close> returns null.
\<close>

fun strip_literal :: "string \<Rightarrow> string \<Rightarrow> string option" where
  "strip_literal [] s = Some s"
| "strip_literal (p # ps) [] = None"
| "strip_literal (p # ps) (c # cs) = (if p = c then strip_literal ps cs else None)"

fun take_digits :: "nat \<Rightarrow> string \<Rightarrow> string \<times> string" where
  "take_digits 0 s = ([], s)"
| "take_digits (Suc k) [] = ([], [])"
| "take_digits (Suc k) (c # cs) =
     (if is_digit c then (case take_digits k cs of (ds, rest) \<Rightarrow> (c # ds, rest))
      else ([], c # cs))"

definition match_user :: "string \<Rightarrow> string option" where
  "match_user s =
     (case strip_literal ''user'' s of
        None \<Rightarrow> None
      | Some t \<Rightarrow>
          (case take_digits 2 t of
             (ds, rest) \<Rightarrow> if ds \<noteq> [] \<and> rest = [] then Some ds else None))"

text \<open>\<^verbatim>\<open>Number\<close> on a string of decimal digits, which is all the capture group can hold.\<close>

definition digit_value :: "char \<Rightarrow> int" where
  "digit_value c = int (code c) - 0x30"

definition Number_digits :: "string \<Rightarrow> int" where
  "Number_digits ds = foldl (\<lambda>n c. 10 * n + digit_value c) 0 ds"

definition parseUserId :: "string \<Rightarrow> int option" where
  "parseUserId username =
     (case match_user (toLowerCase (trim username)) of
        None \<Rightarrow> None
      | Some m1 \<Rightarrow>
          (let id = Number_digits m1
           in if id < 1 \<or> id > 99 then None else Some id))"

section \<open>Values received from the back end\<close>

text \<open>
  \<^verbatim>\<open>res.json()\<close> yields a parsed JSON value. The program does two things with a number it
  receives: it prints it and it tests it for zero. A number is therefore kept as the text
  that \<^verbatim>\<open>Number.prototype.toString\<close> gives for it (\<^verbatim>\<open>5120\<close>, \<^verbatim>\<open>1.5\<close>, \<^verbatim>\<open>1e+21\<close>; both zeros
  print as \<^verbatim>\<open>0\<close>), so that no rounding or notation of doubles is left to the model. An object
  is the list of its own properties, the first binding of a name being the one that
  counts. A property that is absent reads as \<^verbatim>\<open>undefined\<close>, which is \<open>None\<close> in
  \<^typ>\<open>'a option\<close>.
\<close>

datatype json =
    JNull
  | JBool bool
  | JNum string
  | JStr string
  | JArr "json list"
  | JObj "(string \<times> json) list"

type_synonym jsvalue = "json option"

text \<open>
  What the engine itself throws: reading a property of null, iterating a value that is
  not iterable, and converting to a string an object that has no usable \<^verbatim>\<open>toString\<close>. The
  text of such a \<^verbatim>\<open>TypeError\<close> differs between engines, so the browser supplies it
  (\<open>fault_message\<close> below).
\<close>

datatype fault = NullRead string | NotIterable | NotPrimitive

datatype js_error =
    Thrown string
  | Rejected string
  | TypeErr fault

fun message :: "(fault \<Rightarrow> string) \<Rightarrow> js_error \<Rightarrow> string" where
  "message fm (Thrown m) = m"
| "message fm (Rejected m) = m"
| "message fm (TypeErr f) = fm f"

text \<open>
  \<^verbatim>\<open>`Bekreftet: user${userId}`\<close> prints the user id that \<^verbatim>\<open>parseUserId\<close> returned, a whole
  number from 1 to 99: its decimal digits, most significant first.
\<close>

function show_digits :: "int \<Rightarrow> string" where
  "show_digits n =
     (if n < 10 then [char_of (0x30 + n)]
      else show_digits (n div 10) @ [char_of (0x30 + n mod 10)])"
  by pat_completeness auto
termination
  by (relation "measure nat") auto

declare show_digits.simps [simp del]

definition show_id :: "int \<Rightarrow> string" where
  "show_id i = (if i < 0 then CHR ''-'' # show_digits (- i) else show_digits i)"

fun join :: "string \<Rightarrow> string list \<Rightarrow> string" where
  "join sep [] = []"
| "join sep [x] = x"
| "join sep (x # y # ys) = x @ sep @ join sep (y # ys)"

text \<open>The first failure of a list of results in order, or all their values.\<close>

fun collect :: "('e + 'a) list \<Rightarrow> 'e + 'a list" where
  "collect [] = Inr []"
| "collect (Inl e # rs) = Inl e"
| "collect (Inr x # rs) = (case collect rs of Inl e \<Rightarrow> Inl e | Inr xs \<Rightarrow> Inr (x # xs))"

text \<open>
  \<^verbatim>\<open>ToString\<close>, as template literals, \<^verbatim>\<open>new Error(v)\<close>, \<^verbatim>\<open>join\<close>, property keys and the
  argument of \<^verbatim>\<open>prompt\<close> apply it. An array prints its elements joined by commas, null
  elements as the empty string. An object prints through its \<^verbatim>\<open>toString\<close> method: the
  inherited one gives \<^verbatim>\<open>[object Object]\<close>; an own property of that name, which in parsed
  JSON is never a function, hides it, \<^verbatim>\<open>valueOf\<close> does not yield a primitive either, and the
  conversion throws a \<^verbatim>\<open>TypeError\<close>.
\<close>

fun ToString :: "json \<Rightarrow> js_error + string" where
  "ToString JNull = Inr ''null''"
| "ToString (JBool b) = Inr (if b then ''true'' else ''false'')"
| "ToString (JNum r) = Inr r"
| "ToString (JStr s) = Inr s"
| "ToString (JArr xs) =
     (case collect (map (\<lambda>x. if x = JNull then Inr [] else ToString x) xs) of
        Inl e \<Rightarrow> Inl e
      | Inr ss \<Rightarrow> Inr (join '','' ss))"
| "ToString (JObj kvs) =
     (if map_of kvs ''toString'' = None then Inr ''[object Object]''
      else Inl (TypeErr NotPrimitive))"

definition ToString_value :: "jsvalue \<Rightarrow> js_error + string" where
  "ToString_value v = (case v of None \<Rightarrow> Inr ''undefined'' | Some x \<Rightarrow> ToString x)"

text \<open>\<^verbatim>\<open>xs.join(sep)\<close>: each element is converted in turn, null to the empty string.\<close>

definition join_element :: "json \<Rightarrow> js_error + string" where
  "join_element x = (if x = JNull then Inr [] else ToString x)"

definition join_array :: "string \<Rightarrow> json list \<Rightarrow> js_error + string" where
  "join_array sep xs =
     (case collect (map join_element xs) of Inl e \<Rightarrow> Inl e | Inr ss \<Rightarrow> Inr (join sep ss))"

fun truthy :: "jsvalue \<Rightarrow> bool" where
  "truthy None = False"
| "truthy (Some JNull) = False"
| "truthy (Some (JBool b)) = b"
| "truthy (Some (JNum r)) = (r \<noteq> ''0'')"
| "truthy (Some (JStr s)) = (s \<noteq> [])"
| "truthy (Some (JArr xs)) = True"
| "truthy (Some (JObj kvs)) = True"

text \<open>
  Reading a property \<^verbatim>\<open>v.name\<close>, for the names this program reads (\<^verbatim>\<open>error\<close>,
  \<^verbatim>\<open>needs_followup\<close>, \<^verbatim>\<open>questions\<close>, \<^verbatim>\<open>time_to_submit_ms\<close>, \<^verbatim>\<open>log_table\<close>, \<^verbatim>\<open>type\<close>,
  \<^verbatim>\<open>choices\<close>, \<^verbatim>\<open>question\<close>, \<^verbatim>\<open>id\<close>): none of them is a built-in property of a string,
  number, boolean or array, or inherited by an object.
\<close>

fun property :: "json \<Rightarrow> string \<Rightarrow> js_error + jsvalue" where
  "property JNull name = Inl (TypeErr (NullRead name))"
| "property (JObj kvs) name = Inr (map_of kvs name)"
| "property v name = Inr None"

text \<open>
  \<^verbatim>\<open>for (const q of v)\<close>: an array gives its elements, a string its characters, anything
  else a \<^verbatim>\<open>TypeError\<close>.
\<close>

fun iterate :: "jsvalue \<Rightarrow> js_error + json list" where
  "iterate (Some (JArr xs)) = Inr xs"
| "iterate (Some (JStr s)) = Inr (map (\<lambda>c. JStr [c]) s)"
| "iterate v = Inl (TypeErr NotIterable)"

section \<open>The browser and the session state\<close>

text \<open>
  The two module variables \<^verbatim>\<open>userId\<close> and \<^verbatim>\<open>confirmed\<close>, and the parts of the page the
  program writes: \<^verbatim>\<open>submitBtn.disabled\<close>, \<^verbatim>\<open>userStatus.textContent\<close> and
  \<^verbatim>\<open>userStatus.style.color\<close>.
\<close>

record client =
  userId :: "int option"
  confirmed :: bool
  submitBtn_disabled :: bool
  userStatus_text :: string
  userStatus_color :: string

text \<open>
  \<^verbatim>\<open>Number(tableSelect ? tableSelect.value : 1)\<close> is kept as written: the number 1 when
  the page has no \<^verbatim>\<open>tableSelect\<close> element, else \<^verbatim>\<open>Number\<close> of the element's value.
\<close>

datatype table_choice = One | NumberOf string

text \<open>
  The JSON bodies the program sends: \<^verbatim>\<open>{user_id, table}\<close>, \<^verbatim>\<open>{user_id}\<close> (the earlier
  revision), \<^verbatim>\<open>{user_id, title, description}\<close> and \<^verbatim>\<open>{user_id, answers}\<close>. The answers
  object is the list of its own properties in the order they were first assigned.
\<close>

datatype body =
    DraftStart int table_choice
  | DraftStartOnly int
  | Ticket int string string
  | Answers int "(string \<times> string) list"

text \<open>
  What a \<^verbatim>\<open>fetch\<close> followed by \<^verbatim>\<open>res.json()\<close> can come to: \<^verbatim>\<open>fetch\<close> rejects, \<^verbatim>\<open>json()\<close>
  rejects, or there is a response with its \<^verbatim>\<open>ok\<close> flag and parsed body.
\<close>

datatype fetch_result =
    NetworkFailure string
  | InvalidJson string
  | Response bool json

text \<open>
  Everything outside the program: the form fields, the back end (a reply for each URL and
  body), the user at the \<^verbatim>\<open>prompt\<close> dialogs (the reply to the i-th prompt of a run, given
  its message; \<open>None\<close> is Cancel), and the engine's \<^verbatim>\<open>TypeError\<close> texts.
\<close>

record browser =
  username_value :: string
  tableSelect_value :: "string option"
  inquiry_value :: string
  Description_value :: string
  fetch :: "string \<Rightarrow> body \<Rightarrow> fetch_result"
  prompt :: "nat \<Rightarrow> jsvalue \<Rightarrow> string option"
  fault_message :: "fault \<Rightarrow> string"

text \<open>
  What a run does that can be observed, in order. Console output is left out.
\<close>

datatype event =
    Fetch string body
  | Prompt jsvalue
  | Alert string

text \<open>
  The three ways out of \<^verbatim>\<open>confirmUser\<close> and \<^verbatim>\<open>submitForm\<close>: an early \<^verbatim>\<open>return\<close>, the end
  of the \<^verbatim>\<open>try\<close> block, and the \<^verbatim>\<open>catch\<close> block.
\<close>

datatype outcome = Returned | Completed | Caught

record run =
  after :: client
  events :: "event list"
  outcome :: outcome

fun fetches :: "event list \<Rightarrow> (string \<times> body) list" where
  "fetches [] = []"
| "fetches (Fetch url payload # es) = (url, payload) # fetches es"
| "fetches (e # es) = fetches es"

fun prompts :: "event list \<Rightarrow> jsvalue list" where
  "prompts [] = []"
| "prompts (Prompt m # es) = m # prompts es"
| "prompts (e # es) = prompts es"

definition draft_url :: string where
  "draft_url = ''http://127.0.0.1:5000/api/draft/start''"

definition followups_url :: string where
  "followups_url = ''http://127.0.0.1:5000/api/ai/followups''"

definition tickets_url :: string where
  "tickets_url = ''http://127.0.0.1:5000/api/tickets''"

definition finalize_url :: string where
  "finalize_url = ''http://127.0.0.1:5000/api/ai/finalize''"

text \<open>
  Each call site has the same three statements, with its own fallback text:
  \<^verbatim>\<open>const res = await fetch(url, ...); const data = await res.json();
  if (!res.ok) throw new Error(data.error || fallback);\<close>
  \<^verbatim>\<open>new Error(v)\<close> converts \<open>v\<close> to a string; where that conversion throws, its
  \<^verbatim>\<open>TypeError\<close> is what leaves the statement.
\<close>

definition request :: "browser \<Rightarrow> string \<Rightarrow> body \<Rightarrow> string \<Rightarrow> js_error + json" where
  "request b url payload fallback =
     (case fetch b url payload of
        NetworkFailure m \<Rightarrow> Inl (Rejected m)
      | InvalidJson m \<Rightarrow> Inl (Rejected m)
      | Response ok data \<Rightarrow>
          if ok then Inr data
          else (case property data ''error'' of
                  Inl e \<Rightarrow> Inl e
                | Inr v \<Rightarrow>
                    if truthy v
                    then (case ToString_value v of Inl e \<Rightarrow> Inl e | Inr m \<Rightarrow> Inl (Thrown m))
                    else Inl (Thrown fallback)))"

text \<open>\<^verbatim>\<open>!id\<close> and \<^verbatim>\<open>!userId\<close> for a value that is null or a number.\<close>

definition falsy_id :: "int option \<Rightarrow> bool" where
  "falsy_id v = (v = None \<or> v = Some 0)"

section \<open>Draft session client: \<^verbatim>\<open>confirmUser\<close>\<close>

definition invalid_username :: "client \<Rightarrow> run" where
  "invalid_username s =
     \<lparr>after = s\<lparr>userStatus_text := ''Ugyldig brukernavn. Bruk format: user1 - user99'',
                 userStatus_color := ''red''\<rparr>,
      events = [], outcome = Returned\<rparr>"

text \<open>
  The \<^verbatim>\<open>try\<close> block of \<^verbatim>\<open>confirmUser\<close> after the draft-start request has been built; the
  two revisions differ in the body of that request only.
\<close>

definition start_draft :: "client \<Rightarrow> browser \<Rightarrow> int \<Rightarrow> body \<Rightarrow> run" where
  "start_draft s b uid payload =
     (case request b draft_url payload ''Failed to start draft'' of
        Inl err \<Rightarrow>
          \<lparr>after = s\<lparr>userStatus_text := ''Kunne ikke starte timer: '' @ message (fault_message b) err,
                     userStatus_color := ''red''\<rparr>,
           events = [Fetch draft_url payload], outcome = Caught\<rparr>
      | Inr data \<Rightarrow>
          \<lparr>after = s\<lparr>userId := Some uid, confirmed := True,
                     userStatus_text := ''Bekreftet: user'' @ show_id uid @ ''. Timer startet.'',
                     userStatus_color := ''green'',
                     submitBtn_disabled := False\<rparr>,
           events = [Fetch draft_url payload], outcome = Completed\<rparr>)"

definition table_of :: "browser \<Rightarrow> table_choice" where
  "table_of b = (case tableSelect_value b of None \<Rightarrow> One | Some v \<Rightarrow> NumberOf v)"

definition confirmUser :: "client \<Rightarrow> browser \<Rightarrow> run" where
  "confirmUser s b =
     (let id = parseUserId (username_value b)
      in if falsy_id id then invalid_username s
         else start_draft s b (the id) (DraftStart (the id) (table_of b)))"

definition confirmUser_prototype :: "client \<Rightarrow> browser \<Rightarrow> run" where
  "confirmUser_prototype s b =
     (let id = parseUserId (username_value b)
      in if falsy_id id then invalid_username s
         else start_draft s b (the id) (DraftStartOnly (the id)))"

section \<open>Ticket submission client: \<^verbatim>\<open>submitForm\<close>\<close>

text \<open>
  One round of the loop over the questions. The message is the argument handed to
  \<^verbatim>\<open>prompt\<close>: a string built from the question and its choices when the type is
  \<^verbatim>\<open>multiple_choice\<close> and \<^verbatim>\<open>choices\<close> is a non-empty array, else the value of
  \<^verbatim>\<open>q.question\<close> itself, which \<^verbatim>\<open>prompt\<close> converts to a string unless it is undefined.
  Reading \<^verbatim>\<open>q.type\<close> throws when \<^verbatim>\<open>q\<close> is null, and each conversion to a string can throw.
\<close>

definition is_nonempty_array :: "jsvalue \<Rightarrow> bool" where
  "is_nonempty_array v = (case v of Some (JArr cs) \<Rightarrow> cs \<noteq> [] | _ \<Rightarrow> False)"

definition array_elements :: "jsvalue \<Rightarrow> json list" where
  "array_elements v = (case v of Some (JArr cs) \<Rightarrow> cs | _ \<Rightarrow> [])"

definition field :: "json \<Rightarrow> string \<Rightarrow> jsvalue" where
  "field v name = (case property v name of Inl e \<Rightarrow> None | Inr x \<Rightarrow> x)"

definition choices_message :: "json \<Rightarrow> js_error + string" where
  "choices_message q =
     (case ToString_value (field q ''question'') of
        Inl e \<Rightarrow> Inl e
      | Inr asked \<Rightarrow>
          (case join_array ([CHR 0x0A] @ ''- '') (array_elements (field q ''choices'')) of
             Inl e \<Rightarrow> Inl e
           | Inr listed \<Rightarrow>
               Inr (asked @ [CHR 0x0A] @ ''Valg:'' @ [CHR 0x0A] @ ''- '' @ listed)))"

definition prompt_argument :: "jsvalue \<Rightarrow> js_error + jsvalue" where
  "prompt_argument v =
     (case v of
        None \<Rightarrow> Inr None
      | Some x \<Rightarrow> (case ToString x of Inl e \<Rightarrow> Inl e | Inr shown \<Rightarrow> Inr v))"

definition prompt_message :: "json \<Rightarrow> js_error + jsvalue" where
  "prompt_message q =
     (case property q ''type'' of
        Inl e \<Rightarrow> Inl e
      | Inr t \<Rightarrow>
          if t = Some (JStr ''multiple_choice'') \<and> is_nonempty_array (field q ''choices'')
          then (case choices_message q of Inl e \<Rightarrow> Inl e | Inr m \<Rightarrow> Inr (Some (JStr m)))
          else prompt_argument (field q ''question''))"

text \<open>
  \<^verbatim>\<open>answers[key] = value\<close> on an object created by \<^verbatim>\<open>{}\<close>: the key \<^verbatim>\<open>__proto__\<close> reaches
  the setter of \<^verbatim>\<open>Object.prototype\<close>, which ignores a string; every other key becomes
  or overwrites an own property.
\<close>

definition set_property :: "string \<Rightarrow> string \<Rightarrow> (string \<times> string) list \<Rightarrow> (string \<times> string) list" where
  "set_property k v answers = (if k = ''__proto__'' then answers else AList.update k v answers)"

text \<open>\<^verbatim>\<open>prompt(...) || ""\<close>: Cancel (null) and the empty string both give the empty string.\<close>

definition reply :: "browser \<Rightarrow> nat \<Rightarrow> jsvalue \<Rightarrow> string" where
  "reply b i m = (case prompt b i m of None \<Rightarrow> [] | Some a \<Rightarrow> a)"

text \<open>The property key of \<^verbatim>\<open>answers[q.id]\<close>: \<^verbatim>\<open>q.id\<close> converted to a string.\<close>

definition answer_key :: "json \<Rightarrow> js_error + string" where
  "answer_key q = ToString_value (field q ''id'')"

fun ask_all ::
  "browser \<Rightarrow> nat \<Rightarrow> json list \<Rightarrow> (string \<times> string) list
     \<Rightarrow> event list \<times> (js_error + (string \<times> string) list)" where
  "ask_all b i [] answers = ([], Inr answers)"
| "ask_all b i (q # qs) answers =
     (case prompt_message q of
        Inl e \<Rightarrow> ([], Inl e)
      | Inr m \<Rightarrow>
          (let answer = reply b i m
           in case answer_key q of
                Inl e \<Rightarrow> ([Prompt m], Inl e)
              | Inr k \<Rightarrow>
                  (case ask_all b (Suc i) qs (set_property k (trim answer) answers) of
                     (es, r) \<Rightarrow> (Prompt m # es, r))))"

text \<open>
  Posting the ticket directly: the whole \<^verbatim>\<open>try\<close> body of the earlier revision after
  validation (its alert says \<^verbatim>\<open>ms\<close>), and the branch without follow-ups of the later one
  (its alert says \<^verbatim>\<open>s\<close>). The alert's text is a template literal, which converts
  \<^verbatim>\<open>data.time_to_submit_ms\<close> to a string.
\<close>

definition post_ticket ::
  "browser \<Rightarrow> int \<Rightarrow> string \<Rightarrow> string \<Rightarrow> string \<Rightarrow> event list \<times> (js_error + unit)" where
  "post_ticket b uid title description unit_name =
     (let payload = Ticket uid title description
      in case request b tickets_url payload ''Failed to submit ticket'' of
           Inl e \<Rightarrow> ([Fetch tickets_url payload], Inl e)
         | Inr data \<Rightarrow>
             (case property data ''time_to_submit_ms'' of
                Inl e \<Rightarrow> ([Fetch tickets_url payload], Inl e)
              | Inr t \<Rightarrow>
                  (case ToString_value t of
                     Inl e \<Rightarrow> ([Fetch tickets_url payload], Inl e)
                   | Inr used \<Rightarrow>
                       ([Fetch tickets_url payload,
                         Alert (''Ticket sendt!'' @ [CHR 0x0A] @ ''Tid brukt: '' @ used
                                  @ '' '' @ unit_name)],
                        Inr ()))))"

text \<open>The branch with follow-ups: ask every question, then finalize.\<close>

definition finalize ::
  "browser \<Rightarrow> int \<Rightarrow> jsvalue \<Rightarrow> event list \<times> (js_error + unit)" where
  "finalize b uid questions =
     (case iterate questions of
        Inl e \<Rightarrow> ([], Inl e)
      | Inr qs \<Rightarrow>
          (case ask_all b 0 qs [] of
             (es, Inl e) \<Rightarrow> (es, Inl e)
           | (es, Inr answers) \<Rightarrow>
               (let payload = Answers uid answers
                in case request b finalize_url payload ''Failed finalize'' of
                     Inl e \<Rightarrow> (es @ [Fetch finalize_url payload], Inl e)
                   | Inr finData \<Rightarrow>
                       (case property finData ''time_to_submit_ms'' of
                          Inl e \<Rightarrow> (es @ [Fetch finalize_url payload], Inl e)
                        | Inr t \<Rightarrow>
                            (case ToString_value t of
                               Inl e \<Rightarrow> (es @ [Fetch finalize_url payload], Inl e)
                             | Inr used \<Rightarrow>
                                 (case ToString_value (field finData ''log_table'') of
                                    Inl e \<Rightarrow> (es @ [Fetch finalize_url payload], Inl e)
                                  | Inr table \<Rightarrow>
                                      (es @ [Fetch finalize_url payload,
                                             Alert (''Ticket sendt (AI forbedret)!'' @ [CHR 0x0A]
                                                      @ ''Tid brukt: '' @ used @ '' s'' @ [CHR 0x0A]
                                                      @ ''Data sendt til Tabell: '' @ table)],
                                       Inr ())))))))"

text \<open>The \<^verbatim>\<open>try\<close> body of the later revision after validation.\<close>

definition negotiate ::
  "browser \<Rightarrow> int \<Rightarrow> string \<Rightarrow> string \<Rightarrow> event list \<times> (js_error + unit)" where
  "negotiate b uid title description =
     (let payload = Ticket uid title description
      in case request b followups_url payload ''Failed followups'' of
           Inl e \<Rightarrow> ([Fetch followups_url payload], Inl e)
         | Inr followData \<Rightarrow>
             (case property followData ''needs_followup'' of
                Inl e \<Rightarrow> ([Fetch followups_url payload], Inl e)
              | Inr needs_followup \<Rightarrow>
                  (case (if \<not> truthy needs_followup
                         then post_ticket b uid title description ''s''
                         else finalize b uid (field followData ''questions'')) of
                     (es, r) \<Rightarrow> (Fetch followups_url payload # es, r))))"

definition direct :: "browser \<Rightarrow> int \<Rightarrow> string \<Rightarrow> string \<Rightarrow> event list \<times> (js_error + unit)" where
  "direct b uid title description = post_ticket b uid title description ''ms''"

text \<open>
  The frame both revisions of \<^verbatim>\<open>submitForm\<close> share word for word: the three guards with
  their alerts, the composition of title and description, the reset after the \<^verbatim>\<open>try\<close>
  body has run to its end, and the \<^verbatim>\<open>catch\<close> block. The \<^verbatim>\<open>try\<close> body in between is the
  parameter \<open>steps\<close>.
\<close>

definition rejected :: "client \<Rightarrow> string \<Rightarrow> run" where
  "rejected s text = \<lparr>after = s, events = [Alert text], outcome = Returned\<rparr>"

definition compose_description :: "string \<Rightarrow> string \<Rightarrow> string" where
  "compose_description inquiry desc = ''Kategori: '' @ inquiry @ [CHR 0x0A, CHR 0x0A] @ desc"

definition conclude :: "client \<Rightarrow> browser \<Rightarrow> event list \<times> (js_error + unit) \<Rightarrow> run" where
  "conclude s b r =
     (case r of
        (es, Inl err) \<Rightarrow>
          \<lparr>after = s,
           events = es @ [Alert (''Noe gikk galt: '' @ message (fault_message b) err)],
           outcome = Caught\<rparr>
      | (es, Inr u) \<Rightarrow>
          \<lparr>after = s\<lparr>confirmed := False, userId := None, submitBtn_disabled := True,
                     userStatus_text := ''Bekreft bruker for '' @ [CHR 0xE5] @ '' starte ny timer.''\<rparr>,
           events = es, outcome = Completed\<rparr>)"

definition submit_with ::
  "(browser \<Rightarrow> int \<Rightarrow> string \<Rightarrow> string \<Rightarrow> event list \<times> (js_error + unit))
     \<Rightarrow> client \<Rightarrow> browser \<Rightarrow> run" where
  "submit_with steps s b =
     (if \<not> confirmed s \<or> falsy_id (userId s)
      then rejected s (''Bekreft bruker f'' @ [CHR 0xF8] @ ''rst.'')
      else
        (let inquiry = inquiry_value b;
             desc = trim (Description_value b)
         in if inquiry = [] \<or> inquiry = ''-- Velg --''
            then rejected s ''Velg hva henvendelsen gjelder.''
            else if desc = []
            then rejected s ''Skriv en kort beskrivelse.''
            else conclude s b
                   (steps b (the (userId s)) inquiry (compose_description inquiry desc))))"

definition submitForm :: "client \<Rightarrow> browser \<Rightarrow> run" where
  "submitForm = submit_with negotiate"

definition submitForm_prototype :: "client \<Rightarrow> browser \<Rightarrow> run" where
  "submitForm_prototype = submit_with direct"

text \<open>
  A session: the two operations run one after the other, each to its end. A run is taken
  as a whole; nothing else is modelled as running while it awaits a response.
\<close>

datatype action = ConfirmUser browser | SubmitForm browser

fun perform :: "client \<Rightarrow> action \<Rightarrow> client" where
  "perform s (ConfirmUser b) = after (confirmUser s b)"
| "perform s (SubmitForm b) = after (submitForm s b)"

fun perform_prototype :: "client \<Rightarrow> action \<Rightarrow> client" where
  "perform_prototype s (ConfirmUser b) = after (confirmUser_prototype s b)"
| "perform_prototype s (SubmitForm b) = after (submitForm_prototype s b)"

definition session :: "client \<Rightarrow> action list \<Rightarrow> client" where
  "session s acts = foldl perform s acts"

definition session_prototype :: "client \<Rightarrow> action list \<Rightarrow> client" where
  "session_prototype s acts = foldl perform_prototype s acts"

section \<open>The specification's notions\<close>

text \<open>
  The specification's wording of the accepted inputs (section 4.1 and testable property 1):
  after trimming and lower-casing, the string is \<^verbatim>\<open>user\<close> followed by one or two digits,
  and the number they denote lies in 1..99.
\<close>

definition spec_username_digits :: "string \<Rightarrow> string" where
  "spec_username_digits s = drop 4 (toLowerCase (trim s))"

definition spec_valid_username :: "string \<Rightarrow> bool" where
  "spec_valid_username s =
     (take 4 (toLowerCase (trim s)) = ''user'' \<and>
      (length (spec_username_digits s) = 1 \<or> length (spec_username_digits s) = 2) \<and>
      list_all is_digit (spec_username_digits s) \<and>
      1 \<le> Number_digits (spec_username_digits s) \<and>
      Number_digits (spec_username_digits s) \<le> 99)"

text \<open>
  A submission passes validation (section 4.3, steps 1 and 2) when the client is confirmed
  with a user id, a category other than the placeholder is selected, and the description
  is not empty after trimming.
\<close>

definition passes_validation :: "client \<Rightarrow> browser \<Rightarrow> bool" where
  "passes_validation s b =
     (confirmed s \<and> \<not> falsy_id (userId s) \<and> inquiry_value b \<noteq> [] \<and>
      inquiry_value b \<noteq> ''-- Velg --'' \<and> trim (Description_value b) \<noteq> [])"

text \<open>
  A backend failure (section 4.2): the request fails on the network, the body is not JSON,
  or the response is not ok.
\<close>

definition failing :: "fetch_result \<Rightarrow> bool" where
  "failing r = (case r of NetworkFailure m \<Rightarrow> True | InvalidJson m \<Rightarrow> True | Response ok data \<Rightarrow> \<not> ok)"

text \<open>
  The message a failure carries: the text of the network or parse failure, or the \<^verbatim>\<open>error\<close>
  string of a response that is not ok (section 6, error convention).
\<close>

definition failure_message :: "fetch_result \<Rightarrow> string option" where
  "failure_message r =
     (case r of
        NetworkFailure m \<Rightarrow> Some m
      | InvalidJson m \<Rightarrow> Some m
      | Response ok data \<Rightarrow>
          if ok then None
          else (case field data ''error'' of
                  Some (JStr e) \<Rightarrow> if e = [] then None else Some e
                | _ \<Rightarrow> None))"

text \<open>
  A value prints when converting it to a string does not throw; what it prints is then
  its text. Strings, numbers, booleans, null and undefined always print.
\<close>

definition prints :: "jsvalue \<Rightarrow> bool" where
  "prints v = (case ToString_value v of Inl e \<Rightarrow> False | Inr shown \<Rightarrow> True)"

definition printed :: "jsvalue \<Rightarrow> string" where
  "printed v = (case ToString_value v of Inl e \<Rightarrow> [] | Inr shown \<Rightarrow> shown)"

definition printed_choice :: "json \<Rightarrow> string" where
  "printed_choice c = (if c = JNull then [] else printed (Some c))"

text \<open>
  A follow-up question (section 3: an id, a question text, a type and optional choices) is
  well formed when it is not null and its id, its question and each of its choices print.
  Its id as a key of the answers mapping is the text the id prints.
\<close>

definition well_formed_question :: "json \<Rightarrow> bool" where
  "well_formed_question q =
     (q \<noteq> JNull \<and> prints (field q ''question'') \<and> prints (field q ''id'') \<and>
      list_all (\<lambda>c. prints (Some c)) (array_elements (field q ''choices'')))"

definition question_key :: "json \<Rightarrow> string" where
  "question_key q = printed (field q ''id'')"

text \<open>
  What a question's prompt presents (section 4.3, step 4): for a multiple-choice question
  with choices present, the question text and the list of choices; otherwise the question
  text alone.
\<close>

definition expected_prompt :: "json \<Rightarrow> jsvalue" where
  "expected_prompt q =
     (if field q ''type'' = Some (JStr ''multiple_choice'') \<and> is_nonempty_array (field q ''choices'')
      then Some (JStr (printed (field q ''question'') @ ''\<newline>Valg:\<newline>- ''
                        @ join ''\<newline>- '' (map printed_choice (array_elements (field q ''choices'')))))
      else field q ''question'')"

text \<open>
  The session invariant: the client is confirmed exactly when it holds a user id, and that
  id lies in 1..99.
\<close>

definition session_invariant :: "client \<Rightarrow> bool" where
  "session_invariant s =
     (confirmed s = (case userId s of None \<Rightarrow> False | Some n \<Rightarrow> 1 \<le> n \<and> n \<le> 99))"

section \<open>Example inputs\<close>

text \<open>
  A client that has not confirmed yet and one confirmed as user 7; a form about billing; a
  back end that asks no follow-up questions, one that is unreachable, and one that asks
  the questions it is given; a user who answers the prompts from a list of replies and
  cancels the rest.
\<close>

definition fresh_client :: client where
  "fresh_client = \<lparr>userId = None, confirmed = False, submitBtn_disabled = True,
                    userStatus_text = [], userStatus_color = []\<rparr>"

definition user7 :: client where
  "user7 = \<lparr>userId = Some 7, confirmed = True, submitBtn_disabled = False,
             userStatus_text = ''Bekreftet: user7. Timer startet.'', userStatus_color = ''green''\<rparr>"

definition backend_plain :: "string \<Rightarrow> body \<Rightarrow> fetch_result" where
  "backend_plain url payload =
     (if url = draft_url then Response True (JObj [(''ok'', JBool True)])
      else if url = followups_url then Response True (JObj [(''needs_followup'', JBool False)])
      else if url = tickets_url then Response True (JObj [(''time_to_submit_ms'', JNum ''5120'')])
      else Response False (JObj [(''error'', JStr ''Not found'')]))"

definition billing_form :: browser where
  "billing_form =
     \<lparr>username_value = ''  User7  '', tableSelect_value = Some ''3'',
      inquiry_value = ''Billing'', Description_value = ''late fee'',
      fetch = backend_plain, prompt = (\<lambda>i m. None), fault_message = (\<lambda>f. ''TypeError'')\<rparr>"

definition offline_form :: browser where
  "offline_form = billing_form\<lparr>fetch := (\<lambda>url payload. NetworkFailure ''Failed to fetch'')\<rparr>"

definition backend_rejecting :: "string \<Rightarrow> body \<Rightarrow> fetch_result" where
  "backend_rejecting url payload =
     (if url = followups_url then Response True (JObj [(''needs_followup'', JBool False)])
      else Response False (JObj [(''error'', JStr ''Draft expired'')]))"

definition rejecting_form :: browser where
  "rejecting_form = billing_form\<lparr>fetch := backend_rejecting\<rparr>"

definition locked_client :: client where
  "locked_client =
     \<lparr>userId = None, confirmed = False, submitBtn_disabled = True,
      userStatus_text = ''Bekreft bruker for '' @ [CHR 0xE5] @ '' starte ny timer.'',
      userStatus_color = ''green''\<rparr>"

definition question_product :: json where
  "question_product =
     JObj [(''id'', JStr ''q1''), (''question'', JStr ''Which product?''),
           (''type'', JStr ''multiple_choice''), (''choices'', JArr [JStr ''A'', JStr ''B''])]"

definition question_since :: json where
  "question_since =
     JObj [(''id'', JStr ''q2''), (''question'', JStr ''Since when?''), (''type'', JStr ''free_text'')]"

definition question_again :: json where
  "question_again =
     JObj [(''id'', JStr ''q1''), (''question'', JStr ''Anything else?''), (''type'', JStr ''free_text'')]"

definition question_odd_id :: json where
  "question_odd_id =
     JObj [(''id'', JObj [(''toString'', JStr ''q9'')]), (''question'', JStr ''Which invoice?''),
           (''type'', JStr ''free_text'')]"

definition question_no_choices :: json where
  "question_no_choices =
     JObj [(''id'', JStr ''q3''), (''question'', JStr ''Which plan?''),
           (''type'', JStr ''multiple_choice''), (''choices'', JArr [])]"

definition asking_data :: "json list \<Rightarrow> json" where
  "asking_data qs = JObj [(''needs_followup'', JBool True), (''questions'', JArr qs)]"

definition finalized_data :: json where
  "finalized_data = JObj [(''time_to_submit_ms'', JNum ''9300''), (''log_table'', JNum ''3'')]"

definition backend_asking :: "json list \<Rightarrow> string \<Rightarrow> body \<Rightarrow> fetch_result" where
  "backend_asking qs url payload =
     (if url = followups_url then Response True (asking_data qs)
      else if url = finalize_url then Response True finalized_data
      else Response False (JObj [(''error'', JStr ''Not found'')]))"

definition asking_form :: "json list \<Rightarrow> string option list \<Rightarrow> browser" where
  "asking_form qs replies =
     billing_form\<lparr>fetch := backend_asking qs,
                   prompt := (\<lambda>i m. if i < length replies then replies ! i else None)\<rparr>"

definition billing_ticket :: body where
  "billing_ticket = Ticket 7 ''Billing'' ''Kategori: Billing\<newline>\<newline>late fee''"

section \<open>Properties of the identity parser\<close>

lemma strip_literal_iff: "strip_literal p s = Some t \<longleftrightarrow> s = p @ t"
  by (induction p s rule: strip_literal.induct) auto

lemma take_digits_sound:
  "take_digits k s = (ds, rest) \<Longrightarrow> s = ds @ rest \<and> length ds \<le> k \<and> list_all is_digit ds"
proof (induction k s arbitrary: ds rest rule: take_digits.induct)
  case (3 k c cs)
  then show ?case by (auto split: if_splits prod.splits)
qed auto

lemma take_digits_all:
  "list_all is_digit ds \<Longrightarrow> length ds \<le> k \<Longrightarrow> take_digits k ds = (ds, [])"
proof (induction k ds rule: take_digits.induct)
  case (3 k c cs)
  then show ?case by auto
qed auto

lemma match_user_iff:
  "match_user s = Some ds \<longleftrightarrow>
     s = ''user'' @ ds \<and> (length ds = 1 \<or> length ds = 2) \<and> list_all is_digit ds"
proof
  assume m: "match_user s = Some ds"
  then obtain t where t: "strip_literal ''user'' s = Some t"
    by (auto simp: match_user_def split: option.splits)
  from m t obtain rest where r: "take_digits 2 t = (ds, rest)" "ds \<noteq> []" "rest = []"
    by (auto simp: match_user_def split: prod.splits if_splits)
  from take_digits_sound [OF r(1)] r(2,3)
  have "t = ds" "length ds \<le> 2" "list_all is_digit ds" "0 < length ds"
    by auto
  moreover from t have "s = ''user'' @ t" by (simp only: strip_literal_iff)
  moreover have "0 < length ds \<Longrightarrow> length ds \<le> 2 \<Longrightarrow> length ds = 1 \<or> length ds = 2"
    by arith
  ultimately show "s = ''user'' @ ds \<and> (length ds = 1 \<or> length ds = 2) \<and> list_all is_digit ds"
    by blast
next
  assume a: "s = ''user'' @ ds \<and> (length ds = 1 \<or> length ds = 2) \<and> list_all is_digit ds"
  then have "strip_literal ''user'' s = Some ds" by (simp only: strip_literal_iff)
  moreover from a have "take_digits 2 ds = (ds, [])" by (intro take_digits_all) auto
  moreover from a have "ds \<noteq> []" by auto
  ultimately show "match_user s = Some ds" by (simp add: match_user_def)
qed

lemma match_user_drop:
  "match_user s = Some ds \<Longrightarrow> ds = drop 4 s \<and> take 4 s = ''user''"
  by (auto simp: match_user_iff)

lemma parseUserId_refines:
  "parseUserId s =
     (if spec_valid_username s then Some (Number_digits (spec_username_digits s)) else None)"
proof (cases "match_user (toLowerCase (trim s))")
  case None
  have "\<not> spec_valid_username s"
  proof
    assume v: "spec_valid_username s"
    let ?t = "toLowerCase (trim s)"
    from v have "?t = ''user'' @ drop 4 ?t"
      unfolding spec_valid_username_def by (metis append_take_drop_id)
    with v have "match_user ?t = Some (drop 4 ?t)"
      unfolding spec_valid_username_def spec_username_digits_def match_user_iff by simp
    with None show False by simp
  qed
  with None show ?thesis by (simp add: parseUserId_def)
next
  case (Some ds)
  then have d: "ds = spec_username_digits s" "take 4 (toLowerCase (trim s)) = ''user''"
    by (auto dest: match_user_drop simp: spec_username_digits_def)
  from Some have "(length ds = 1 \<or> length ds = 2) \<and> list_all is_digit ds"
    by (simp add: match_user_iff)
  with d have "spec_valid_username s \<longleftrightarrow> 1 \<le> Number_digits ds \<and> Number_digits ds \<le> 99"
    by (simp add: spec_valid_username_def)
  with Some d show ?thesis by (auto simp: parseUserId_def Let_def)
qed

lemma parseUserId_range: "parseUserId s = Some n \<Longrightarrow> 1 \<le> n \<and> n \<le> 99"
  by (auto simp: parseUserId_def Let_def split: option.splits if_splits)

text \<open>
  Claim C1. \<^verbatim>\<open>parseUserId\<close> returns a number exactly for the inputs the specification
  accepts (trimmed and lower-cased: \<^verbatim>\<open>user\<close>, one or two digits, value in 1..99), and
  that number is the value of the digits; every other input gives null. The inputs the
  specification lists behave as it says: \<^verbatim>\<open>"  User7  "\<close> gives 7, and \<^verbatim>\<open>user100\<close>,
  \<^verbatim>\<open>user0\<close>, \<^verbatim>\<open>admin1\<close> and \<^verbatim>\<open>user1x\<close> are invalid.
\<close>

theorem parseUserId_accepts:
  "parseUserId s =
     (if spec_valid_username s then Some (Number_digits (spec_username_digits s)) else None)
   \<and> parseUserId ''  User7  '' = Some 7
   \<and> parseUserId ''user100'' = None
   \<and> parseUserId ''user0'' = None
   \<and> parseUserId ''admin1'' = None
   \<and> parseUserId ''user1x'' = None"
proof -
  have "parseUserId ''  User7  '' = Some 7" by code_simp
  moreover have "parseUserId ''user100'' = None" by code_simp
  moreover have "parseUserId ''user0'' = None" by code_simp
  moreover have "parseUserId ''admin1'' = None" by code_simp
  moreover have "parseUserId ''user1x'' = None" by code_simp
  ultimately show ?thesis using parseUserId_refines by simp
qed

text \<open>Witness for C1: \<^verbatim>\<open>"USER42 "\<close> is accepted by the specification and parses to 42.\<close>

theorem parseUserId_accepts_witness:
  "spec_valid_username ''USER42 '' \<and> parseUserId ''USER42 '' = Some 42"
proof -
  have v: "spec_valid_username ''USER42 ''" by code_simp
  have n: "Number_digits (spec_username_digits ''USER42 '') = 42" by code_simp
  from parseUserId_accepts [of "''USER42 ''"] v n show ?thesis by simp
qed

section \<open>Facts about the example inputs\<close>

lemma billing_payload:
  "Ticket (the (userId user7)) (inquiry_value billing_form)
     (compose_description (inquiry_value billing_form) (trim (Description_value billing_form)))
   = billing_ticket"
  by code_simp

lemma confirm_billing: "after (confirmUser fresh_client billing_form) = user7"
  by code_simp

lemma asking_validation: "passes_validation user7 (asking_form qs replies)"
  by (simp add: asking_form_def) code_simp

lemma asking_payload:
  "Ticket (the (userId user7)) (inquiry_value (asking_form qs replies))
     (compose_description (inquiry_value (asking_form qs replies))
        (trim (Description_value (asking_form qs replies))))
   = billing_ticket"
  using billing_payload by (simp add: asking_form_def)

lemma asking_followups:
  "fetch (asking_form qs replies) followups_url payload = Response True (asking_data qs)"
  by (simp add: asking_form_def backend_asking_def)

lemma asking_finalize:
  "fetch (asking_form qs replies) finalize_url payload = Response True finalized_data"
  by (simp add: asking_form_def backend_asking_def followups_url_def finalize_url_def)

lemma asking_data_fields:
  "property (asking_data qs) ''needs_followup'' = Inr (Some (JBool True))"
  "field (asking_data qs) ''questions'' = Some (JArr qs)"
  by (simp_all add: asking_data_def field_def)

text \<open>
  A question whose id is an object with a \<^verbatim>\<open>toString\<close> property: its prompt is shown, then
  \<^verbatim>\<open>answers[q.id]\<close> throws, and the run ends in the \<^verbatim>\<open>catch\<close> block before the next question
  and without a finalize request.
\<close>

lemma odd_id_run:
  "outcome (submitForm user7 (asking_form [question_odd_id, question_since] [Some ''x''])) = Caught
   \<and> events (submitForm user7 (asking_form [question_odd_id, question_since] [Some ''x'']))
       = [Fetch followups_url billing_ticket, Prompt (Some (JStr ''Which invoice?'')),
          Alert ''Noe gikk galt: TypeError'']"
  by code_simp

section \<open>Requests and the frame of \<^verbatim>\<open>submitForm\<close>\<close>

lemma request_ok: "fetch b url p = Response True data \<Longrightarrow> request b url p fb = Inr data"
  by (simp add: request_def)

lemma request_failing: "failing (fetch b url p) \<Longrightarrow> \<exists>e. request b url p fb = Inl e"
  by (auto simp: request_def failing_def split: fetch_result.splits sum.splits)

lemma failure_message_failing: "failure_message r = Some m \<Longrightarrow> failing r"
  by (auto simp: failure_message_def failing_def split: fetch_result.splits if_splits)

lemma request_failure_message:
  "failure_message (fetch b url p) = Some m \<Longrightarrow> request b url p fb = Inl e \<Longrightarrow>
     message fm e = m"
  by (cases "fetch b url p")
     (auto simp: failure_message_def request_def field_def ToString_value_def
           split: if_splits sum.splits option.splits json.splits)

lemma request_Inr_iff: "request b url p fb = Inr data \<longleftrightarrow> fetch b url p = Response True data"
  by (auto simp: request_def split: fetch_result.splits sum.splits)

lemma submit_with_rejected:
  "\<not> passes_validation s b \<Longrightarrow>
     \<exists>text. submit_with steps s b = \<lparr>after = s, events = [Alert text], outcome = Returned\<rparr>"
  by (auto simp: passes_validation_def submit_with_def rejected_def Let_def)

lemma submit_with_passes:
  "passes_validation s b \<Longrightarrow>
     submit_with steps s b =
       conclude s b (steps b (the (userId s)) (inquiry_value b)
                       (compose_description (inquiry_value b) (trim (Description_value b))))"
  by (simp add: passes_validation_def submit_with_def Let_def)

lemma conclude_Caught: "after (conclude s b (es, Inl e)) = s"
  "events (conclude s b (es, Inl e)) = es @ [Alert (''Noe gikk galt: '' @ message (fault_message b) e)]"
  "outcome (conclude s b (es, Inl e)) = Caught"
  by (simp_all add: conclude_def)

lemma conclude_Completed:
  "confirmed (after (conclude s b (es, Inr u))) = False"
  "userId (after (conclude s b (es, Inr u))) = None"
  "events (conclude s b (es, Inr u)) = es"
  "outcome (conclude s b (es, Inr u)) = Completed"
  by (simp_all add: conclude_def)

text \<open>
  Claim C4. If the client is not confirmed, or the category is the placeholder
  \<^verbatim>\<open>-- Velg --\<close> or empty, or the description is empty after trimming, then \<^verbatim>\<open>submitForm\<close>
  returns early: it shows one alert and nothing else, makes no network call, and leaves the
  state as it was. Both revisions.
\<close>
theorem submit_guards:
  assumes "\<not> confirmed s \<or> inquiry_value b = ''-- Velg --'' \<or> inquiry_value b = []
             \<or> trim (Description_value b) = []"
  shows "outcome (submitForm s b) = Returned \<and> after (submitForm s b) = s
         \<and> fetches (events (submitForm s b)) = []
         \<and> (\<exists>text. events (submitForm s b) = [Alert text])
         \<and> outcome (submitForm_prototype s b) = Returned \<and> after (submitForm_prototype s b) = s
         \<and> fetches (events (submitForm_prototype s b)) = []
         \<and> (\<exists>text. events (submitForm_prototype s b) = [Alert text])"
proof -
  from assms have n: "\<not> passes_validation s b" by (auto simp: passes_validation_def)
  from submit_with_rejected [OF n, of negotiate] submit_with_rejected [OF n, of direct]
  show ?thesis by (auto simp: submitForm_def submitForm_prototype_def)
qed

text \<open>Witness for C4: the fresh, unconfirmed client submits the billing form.\<close>
theorem submit_guards_witness:
  "\<not> confirmed fresh_client
   \<and> after (submitForm fresh_client billing_form) = fresh_client
   \<and> fetches (events (submitForm fresh_client billing_form)) = []
   \<and> outcome (submitForm_prototype fresh_client billing_form) = Returned"
proof -
  have "\<not> confirmed fresh_client" by (simp add: fresh_client_def)
  with submit_guards [of fresh_client billing_form] show ?thesis by simp
qed

section \<open>The requests of a submission\<close>

lemma negotiate_first:
  "\<exists>rest. fst (negotiate b uid t d) = Fetch followups_url (Ticket uid t d) # rest"
  by (auto simp: negotiate_def Let_def split: sum.splits prod.splits)

lemma post_ticket_fetches:
  "fetches (fst (post_ticket b uid t d u)) = [(tickets_url, Ticket uid t d)]"
  "prompts (fst (post_ticket b uid t d u)) = []"
  by (auto simp: post_ticket_def Let_def split: sum.splits)

lemma direct_first:
  "\<exists>rest. fst (direct b uid t d) = Fetch tickets_url (Ticket uid t d) # rest"
  by (auto simp: direct_def post_ticket_def Let_def split: sum.splits)

lemma events_conclude: "\<exists>tail. events (conclude s b r) = fst r @ tail"
  by (cases r) (auto simp: conclude_def split: sum.splits)

lemma fetches_append: "fetches (xs @ ys) = fetches xs @ fetches ys"
  by (induction xs rule: fetches.induct) auto

lemma prompts_append: "prompts (xs @ ys) = prompts xs @ prompts ys"
  by (induction xs rule: prompts.induct) auto

lemma fetches_conclude: "fetches (events (conclude s b r)) = fetches (fst r)"
  by (cases r) (auto simp: conclude_def fetches_append split: sum.splits)

lemma prompts_conclude: "prompts (events (conclude s b r)) = prompts (fst r)"
  by (cases r) (auto simp: conclude_def prompts_append split: sum.splits)

lemma negotiate_no_followup:
  assumes "fetch b followups_url (Ticket uid t d) = Response True fd"
    and "property fd ''needs_followup'' = Inr nf" and "\<not> truthy nf"
  shows "negotiate b uid t d =
           (Fetch followups_url (Ticket uid t d) # fst (post_ticket b uid t d ''s''),
            snd (post_ticket b uid t d ''s''))"
  using assms by (simp add: negotiate_def Let_def request_ok split: prod.splits)

lemma negotiate_followup:
  assumes "fetch b followups_url (Ticket uid t d) = Response True fd"
    and "property fd ''needs_followup'' = Inr nf" and "truthy nf"
  shows "negotiate b uid t d =
           (Fetch followups_url (Ticket uid t d) # fst (finalize b uid (field fd ''questions'')),
            snd (finalize b uid (field fd ''questions'')))"
  using assms by (simp add: negotiate_def Let_def request_ok split: prod.splits)

text \<open>
  Claim C6. When a submission passes validation and the follow-up response is ok with
  \<^verbatim>\<open>needs_followup\<close> false, the run makes the follow-up request and then exactly one
  request to \<^verbatim>\<open>/api/tickets\<close>, carrying the same \<^verbatim>\<open>{user_id, title, description}\<close>, and shows
  no prompt.
\<close>
theorem no_followup_single_ticket_call:
  assumes "passes_validation s b"
    and "payload = Ticket (the (userId s)) (inquiry_value b)
                     (compose_description (inquiry_value b) (trim (Description_value b)))"
    and "fetch b followups_url payload = Response True followData"
    and "property followData ''needs_followup'' = Inr (Some (JBool False))"
  shows "fetches (events (submitForm s b)) = [(followups_url, payload), (tickets_url, payload)]
         \<and> length (filter (\<lambda>c. fst c = tickets_url) (fetches (events (submitForm s b)))) = 1
         \<and> prompts (events (submitForm s b)) = []"
proof -
  let ?uid = "the (userId s)" and ?t = "inquiry_value b"
  let ?d = "compose_description (inquiry_value b) (trim (Description_value b))"
  have n: "negotiate b ?uid ?t ?d =
             (Fetch followups_url payload # fst (post_ticket b ?uid ?t ?d ''s''),
              snd (post_ticket b ?uid ?t ?d ''s''))"
    using assms(2-4) negotiate_no_followup [of b ?uid ?t ?d followData "Some (JBool False)"]
    by simp
  have r: "submitForm s b = conclude s b (negotiate b ?uid ?t ?d)"
    unfolding submitForm_def by (rule submit_with_passes [OF assms(1)])
  have f: "fetches (events (submitForm s b)) = [(followups_url, payload), (tickets_url, payload)]"
    by (simp add: r fetches_conclude n post_ticket_fetches assms(2))
  have p: "prompts (events (submitForm s b)) = []"
    by (simp add: r prompts_conclude n post_ticket_fetches)
  have "followups_url \<noteq> tickets_url" by (simp add: followups_url_def tickets_url_def)
  with f p show ?thesis by simp
qed

text \<open>Witness for C6: user 7 submits the billing form to a back end that asks nothing.\<close>
theorem no_followup_single_ticket_call_witness:
  "fetches (events (submitForm user7 billing_form))
     = [(followups_url, billing_ticket), (tickets_url, billing_ticket)]
   \<and> prompts (events (submitForm user7 billing_form)) = []"
proof -
  have v: "passes_validation user7 billing_form" by code_simp
  have f: "fetch billing_form followups_url billing_ticket
             = Response True (JObj [(''needs_followup'', JBool False)])" by code_simp
  have n: "property (JObj [(''needs_followup'', JBool False)]) ''needs_followup''
             = Inr (Some (JBool False))" by simp
  from no_followup_single_ticket_call [OF v billing_payload [symmetric] f n]
  show ?thesis by simp
qed

text \<open>
  Claim C7. For a submission that passes validation with category \<open>c\<close> and raw description
  \<open>d\<close>, the first thing the run does is send a request whose title is \<open>c\<close> and whose
  description is \<^verbatim>\<open>"Kategori: "\<close>, \<open>c\<close>, two line feeds and the trimmed \<open>d\<close>: to the
  follow-up endpoint in the later revision, to the ticket endpoint in the earlier one.
  Category \<^verbatim>\<open>Billing\<close> with description \<^verbatim>\<open>late fee\<close> gives \<^verbatim>\<open>"Kategori: Billing\n\nlate fee"\<close>.
\<close>
theorem composed_request_fields:
  assumes "passes_validation s b" and "c = inquiry_value b" and "d = Description_value b"
  shows "(\<exists>rest. events (submitForm s b) =
            Fetch followups_url
              (Ticket (the (userId s)) c (''Kategori: '' @ c @ ''\<newline>\<newline>'' @ trim d)) # rest)
       \<and> (\<exists>rest. events (submitForm_prototype s b) =
            Fetch tickets_url
              (Ticket (the (userId s)) c (''Kategori: '' @ c @ ''\<newline>\<newline>'' @ trim d)) # rest)
       \<and> compose_description ''Billing'' (trim ''late fee'') = ''Kategori: Billing\<newline>\<newline>late fee''"
proof -
  have cd: "compose_description c (trim d) = ''Kategori: '' @ c @ ''\<newline>\<newline>'' @ trim d"
    by (simp add: compose_description_def)
  have 1: "\<exists>rest. events (submitForm s b) =
            Fetch followups_url (Ticket (the (userId s)) c (compose_description c (trim d))) # rest"
    using negotiate_first [of b "the (userId s)" c "compose_description c (trim d)"]
      events_conclude [of s b "negotiate b (the (userId s)) c (compose_description c (trim d))"]
    by (auto simp: submitForm_def submit_with_passes [OF assms(1)] assms(2,3))
  have 2: "\<exists>rest. events (submitForm_prototype s b) =
            Fetch tickets_url (Ticket (the (userId s)) c (compose_description c (trim d))) # rest"
    using direct_first [of b "the (userId s)" c "compose_description c (trim d)"]
      events_conclude [of s b "direct b (the (userId s)) c (compose_description c (trim d))"]
    by (auto simp: submitForm_prototype_def submit_with_passes [OF assms(1)] assms(2,3))
  have 3: "compose_description ''Billing'' (trim ''late fee'') = ''Kategori: Billing\<newline>\<newline>late fee''"
    by code_simp
  from 1 2 3 show ?thesis unfolding cd by blast
qed

text \<open>Witness for C7: the billing form of user 7, in both revisions.\<close>
theorem composed_request_fields_witness:
  "hd (events (submitForm user7 billing_form)) = Fetch followups_url billing_ticket
   \<and> hd (events (submitForm_prototype user7 billing_form)) = Fetch tickets_url billing_ticket"
proof -
  have v: "passes_validation user7 billing_form" by code_simp
  have i: "''Billing'' = inquiry_value billing_form" by (simp add: billing_form_def)
  have d: "''late fee'' = Description_value billing_form" by (simp add: billing_form_def)
  have u: "the (userId user7) = 7" by (simp add: user7_def)
  have t: "trim ''late fee'' = ''late fee''" by code_simp
  from composed_request_fields [OF v i d] obtain rest rest'
    where "events (submitForm user7 billing_form) =
             Fetch followups_url
               (Ticket (the (userId user7)) ''Billing''
                  (''Kategori: '' @ ''Billing'' @ ''\<newline>\<newline>'' @ trim ''late fee'')) # rest"
      and "events (submitForm_prototype user7 billing_form) =
             Fetch tickets_url
               (Ticket (the (userId user7)) ''Billing''
                  (''Kategori: '' @ ''Billing'' @ ''\<newline>\<newline>'' @ trim ''late fee'')) # rest'"
    by blast
  then show ?thesis by (simp add: u t billing_ticket_def)
qed

section \<open>The loop over the questions\<close>

lemma prints_ToString: "prints v \<Longrightarrow> ToString_value v = Inr (printed v)"
  by (simp add: prints_def printed_def split: sum.splits)

lemma ToString_Inr_printed: "ToString_value v = Inr shown \<Longrightarrow> prints v \<and> printed v = shown"
  by (simp add: prints_def printed_def)

lemma collect_Inr:
  "collect rs = Inr xs \<Longrightarrow> rs = map Inr xs"
  by (induction rs arbitrary: xs rule: collect.induct) (auto split: sum.splits)

lemma collect_map_Inr: "collect (map Inr xs) = Inr xs"
  by (induction xs) auto

lemma join_element_Inr: "join_element c = Inr shown \<Longrightarrow> shown = printed_choice c"
  by (auto simp: join_element_def printed_choice_def printed_def ToString_value_def
        split: if_splits)

lemma join_element_prints: "prints (Some c) \<Longrightarrow> join_element c = Inr (printed_choice c)"
  by (auto simp: join_element_def printed_choice_def printed_def prints_def ToString_value_def
        split: sum.splits)

lemma join_array_Inr:
  assumes "join_array sep cs = Inr listed"
  shows "listed = join sep (map printed_choice cs)"
proof -
  from assms obtain ss where c: "collect (map join_element cs) = Inr ss" and l: "listed = join sep ss"
    by (auto simp: join_array_def split: sum.splits)
  from collect_Inr [OF c] have "map join_element cs = map Inr ss" .
  then have "ss = map printed_choice cs"
  proof (induction cs arbitrary: ss)
    case Nil
    then show ?case by simp
  next
    case (Cons c cs)
    then obtain x xs where ss: "ss = x # xs" by (cases ss) auto
    with Cons.prems have "join_element c = Inr x" "map join_element cs = map Inr xs" by auto
    with Cons.IH [of xs] ss show ?case by (simp add: join_element_Inr)
  qed
  with l show ?thesis by simp
qed

lemma join_array_prints:
  assumes "list_all (\<lambda>c. prints (Some c)) cs"
  shows "join_array sep cs = Inr (join sep (map printed_choice cs))"
proof -
  from assms have "map join_element cs = map Inr (map printed_choice cs)"
    by (induction cs) (auto simp: join_element_prints)
  then show ?thesis by (simp only: join_array_def collect_map_Inr sum.case)
qed

lemma prompt_message_well_formed:
  assumes "well_formed_question q"
  shows "prompt_message q = Inr (expected_prompt q)"
proof -
  from assms have n: "q \<noteq> JNull" and a: "prints (field q ''question'')"
    and c: "list_all (\<lambda>c. prints (Some c)) (array_elements (field q ''choices''))"
    by (simp_all add: well_formed_question_def)
  from n have t: "property q ''type'' = Inr (field q ''type'')"
    by (cases q) (simp_all add: field_def)
  have m: "choices_message q =
             Inr (printed (field q ''question'') @ ''\<newline>Valg:\<newline>- ''
                    @ join ''\<newline>- '' (map printed_choice (array_elements (field q ''choices''))))"
    by (simp add: choices_message_def prints_ToString [OF a] join_array_prints [OF c])
  have p: "prompt_argument (field q ''question'') = Inr (field q ''question'')"
    using prints_ToString [OF a]
    by (auto simp: prompt_argument_def ToString_value_def split: option.splits)
  show ?thesis by (simp add: prompt_message_def t m p expected_prompt_def)
qed

lemma answer_key_well_formed: "well_formed_question q \<Longrightarrow> answer_key q = Inr (question_key q)"
  by (simp add: well_formed_question_def answer_key_def question_key_def prints_ToString)

lemma answer_key_Inr: "answer_key q = Inr k \<Longrightarrow> k = question_key q"
  by (simp add: answer_key_def question_key_def printed_def)

lemma prompt_message_Inr:
  assumes "prompt_message q = Inr m"
  shows "q \<noteq> JNull \<and> m = expected_prompt q"
proof -
  from assms have n: "q \<noteq> JNull" by (auto simp: prompt_message_def)
  then have t: "property q ''type'' = Inr (field q ''type'')"
    by (cases q) (simp_all add: field_def)
  show ?thesis
  proof (cases "field q ''type'' = Some (JStr ''multiple_choice'')
                  \<and> is_nonempty_array (field q ''choices'')")
    case True
    with assms t obtain msg where c: "choices_message q = Inr msg" and m: "m = Some (JStr msg)"
      by (auto simp: prompt_message_def split: sum.splits)
    from c obtain asked listed where
      "ToString_value (field q ''question'') = Inr asked"
      "join_array (''\<newline>- '') (array_elements (field q ''choices'')) = Inr listed"
      "msg = asked @ ''\<newline>Valg:\<newline>- '' @ listed"
      by (auto simp: choices_message_def split: sum.splits)
    with True m n show ?thesis
      by (auto simp: expected_prompt_def dest: ToString_Inr_printed join_array_Inr)
  next
    case False
    with assms t have "prompt_argument (field q ''question'') = Inr m"
      by (auto simp: prompt_message_def)
    then have "m = field q ''question''"
      by (auto simp: prompt_argument_def split: option.splits sum.splits)
    with False n show ?thesis by (auto simp: expected_prompt_def)
  qed
qed

lemma ask_all_fetches: "fetches (fst (ask_all b i qs acc)) = []"
  by (induction qs arbitrary: i acc) (simp_all add: Let_def case_prod_beta split: sum.splits)

lemma ask_all_step:
  assumes "snd (ask_all b i (q # qs) acc) = Inr ans"
  shows "prompt_message q = Inr (expected_prompt q) \<and> answer_key q = Inr (question_key q)
         \<and> snd (ask_all b (Suc i) qs
                  (set_property (question_key q) (trim (reply b i (expected_prompt q))) acc))
             = Inr ans"
proof -
  from assms obtain m where m: "prompt_message q = Inr m"
    by (auto split: sum.splits)
  with assms obtain k where k: "answer_key q = Inr k"
    by (auto simp: Let_def split: sum.splits)
  from m have me: "m = expected_prompt q" by (simp add: prompt_message_Inr)
  from k have ke: "k = question_key q" by (rule answer_key_Inr)
  from assms m k have "snd (ask_all b (Suc i) qs (set_property k (trim (reply b i m)) acc)) = Inr ans"
    by (auto simp: Let_def split: prod.splits)
  with m k me ke show ?thesis by simp
qed

lemma ask_all_well_formed:
  "\<forall>q\<in>set qs. well_formed_question q \<Longrightarrow>
     fst (ask_all b i qs acc) = map (\<lambda>q. Prompt (expected_prompt q)) qs
     \<and> (\<exists>ans. snd (ask_all b i qs acc) = Inr ans)"
proof (induction qs arbitrary: i acc)
  case Nil
  then show ?case by simp
next
  case (Cons q qs)
  then have q: "prompt_message q = Inr (expected_prompt q)" "answer_key q = Inr (question_key q)"
    by (simp_all add: prompt_message_well_formed answer_key_well_formed)
  from Cons.prems have "\<forall>q\<in>set qs. well_formed_question q" by simp
  from Cons.IH [OF this] show ?case
    by (simp add: q Let_def split: prod.splits) (metis fst_conv snd_conv)
qed

lemma set_property_keys:
  "fst ` set (set_property k v al) = fst ` set al \<union> ({k} - {''__proto__''})"
  by (auto simp: set_property_def AList.dom_update)

lemma set_property_distinct:
  "distinct (map fst al) \<Longrightarrow> distinct (map fst (set_property k v al))"
  by (simp add: set_property_def AList.distinct_update)

lemma set_property_other: "k' \<noteq> k \<Longrightarrow> map_of (set_property k v al) k' = map_of al k'"
  by (simp add: set_property_def AList.update_conv')

lemma set_property_same: "k \<noteq> ''__proto__'' \<Longrightarrow> map_of (set_property k v al) k = Some v"
  by (simp add: set_property_def AList.update_conv')

lemma set_property_length:
  "k \<noteq> ''__proto__'' \<Longrightarrow> k \<notin> fst ` set al \<Longrightarrow> length (set_property k v al) = Suc (length al)"
proof -
  assume "k \<notin> fst ` set al"
  then have "length (map fst (AList.update k v al)) = Suc (length al)"
    by (simp only: AList.update_keys) auto
  moreover assume "k \<noteq> ''__proto__''"
  ultimately show ?thesis by (simp add: set_property_def)
qed

lemma ask_all_keys:
  "snd (ask_all b i qs acc) = Inr ans \<Longrightarrow>
     fst ` set ans = fst ` set acc \<union> (question_key ` set qs - {''__proto__''})"
proof (induction qs arbitrary: i acc)
  case Nil
  then show ?case by simp
next
  case (Cons q qs)
  let ?acc = "set_property (question_key q) (trim (reply b i (expected_prompt q))) acc"
  from ask_all_step [OF Cons.prems(1)] have rec: "snd (ask_all b (Suc i) qs ?acc) = Inr ans"
    by simp
  from Cons.IH [OF rec] show ?case
    by (auto simp: set_property_keys)
qed

lemma ask_all_distinct:
  "snd (ask_all b i qs acc) = Inr ans \<Longrightarrow> distinct (map fst acc) \<Longrightarrow> distinct (map fst ans)"
proof (induction qs arbitrary: i acc)
  case Nil
  then show ?case by simp
next
  case (Cons q qs)
  let ?acc = "set_property (question_key q) (trim (reply b i (expected_prompt q))) acc"
  from ask_all_step [OF Cons.prems(1)] have rec: "snd (ask_all b (Suc i) qs ?acc) = Inr ans"
    by simp
  from Cons.IH [OF rec] Cons.prems(2) show ?case
    by (simp add: set_property_distinct)
qed

lemma ask_all_untouched:
  "snd (ask_all b i qs acc) = Inr ans \<Longrightarrow> k \<notin> question_key ` set qs \<Longrightarrow> map_of ans k = map_of acc k"
proof (induction qs arbitrary: i acc)
  case Nil
  then show ?case by simp
next
  case (Cons q qs)
  let ?acc = "set_property (question_key q) (trim (reply b i (expected_prompt q))) acc"
  from ask_all_step [OF Cons.prems(1)] have rec: "snd (ask_all b (Suc i) qs ?acc) = Inr ans"
    by simp
  from Cons.IH [OF rec] Cons.prems(2) show ?case
    by (simp add: set_property_other)
qed

lemma ask_all_last_write:
  "snd (ask_all b i qs acc) = Inr ans \<Longrightarrow> j < length qs \<Longrightarrow>
   question_key (qs ! j) \<noteq> ''__proto__'' \<Longrightarrow>
   (\<forall>j'. j < j' \<and> j' < length qs \<longrightarrow> question_key (qs ! j') \<noteq> question_key (qs ! j)) \<Longrightarrow>
   map_of ans (question_key (qs ! j)) = Some (trim (reply b (i + j) (expected_prompt (qs ! j))))"
proof (induction qs arbitrary: i acc j)
  case Nil
  then show ?case by simp
next
  case (Cons q qs)
  let ?acc = "set_property (question_key q) (trim (reply b i (expected_prompt q))) acc"
  from ask_all_step [OF Cons.prems(1)] have rec: "snd (ask_all b (Suc i) qs ?acc) = Inr ans"
    by simp
  show ?case
  proof (cases j)
    case 0
    with Cons.prems(4) have "\<forall>j'<length qs. question_key (qs ! j') \<noteq> question_key q"
      by (metis Suc_less_eq length_Cons nth_Cons_0 nth_Cons_Suc zero_less_Suc)
    then have "question_key q \<notin> question_key ` set qs"
      by (auto simp: in_set_conv_nth)
    from ask_all_untouched [OF rec this] Cons.prems(3) 0 show ?thesis
      by (simp add: set_property_same)
  next
    case (Suc j0)
    with Cons.prems have a: "j0 < length qs" "question_key (qs ! j0) \<noteq> ''__proto__''" by simp_all
    have "\<forall>j'. j0 < j' \<and> j' < length qs \<longrightarrow> question_key (qs ! j') \<noteq> question_key (qs ! j0)"
    proof (intro allI impI)
      fix j' assume "j0 < j' \<and> j' < length qs"
      then have "j < Suc j' \<and> Suc j' < length (q # qs)" using Suc by simp
      with Cons.prems(4) have "question_key ((q # qs) ! Suc j') \<noteq> question_key ((q # qs) ! j)" by blast
      then show "question_key (qs ! j') \<noteq> question_key (qs ! j0)" using Suc by simp
    qed
    from Cons.IH [OF rec a this] Suc show ?thesis by simp
  qed
qed

lemma ask_all_length:
  "snd (ask_all b i qs acc) = Inr ans \<Longrightarrow> distinct (map question_key qs) \<Longrightarrow>
   ''__proto__'' \<notin> question_key ` set qs \<Longrightarrow> question_key ` set qs \<inter> fst ` set acc = {} \<Longrightarrow>
   length ans = length acc + length qs"
proof (induction qs arbitrary: i acc)
  case Nil
  then show ?case by simp
next
  case (Cons q qs)
  let ?acc = "set_property (question_key q) (trim (reply b i (expected_prompt q))) acc"
  from ask_all_step [OF Cons.prems(1)] have rec: "snd (ask_all b (Suc i) qs ?acc) = Inr ans"
    by simp
  from Cons.prems have k: "question_key q \<noteq> ''__proto__''" "question_key q \<notin> fst ` set acc"
    by auto
  from Cons.prems have "question_key ` set qs \<inter> fst ` set ?acc = {}"
    by (auto simp: set_property_keys)
  with Cons.IH [OF rec] Cons.prems have "length ans = length ?acc + length qs" by simp
  with k show ?case by (simp add: set_property_length)
qed

section \<open>Confirmation and the session invariant\<close>

lemma parseUserId_not_zero: "parseUserId u \<noteq> Some 0"
  using parseUserId_range [of u 0] by auto

lemma falsy_id_parse: "\<not> falsy_id (parseUserId u) \<longleftrightarrow> (\<exists>n. parseUserId u = Some n)"
  by (auto simp: falsy_id_def dest: parseUserId_range)

lemma start_draft_ok:
  "fetch b draft_url p = Response True data \<Longrightarrow>
     outcome (start_draft s b uid p) = Completed \<and>
     confirmed (after (start_draft s b uid p)) \<and> userId (after (start_draft s b uid p)) = Some uid"
  by (simp add: start_draft_def request_ok)

lemma start_draft_failing:
  "failing (fetch b draft_url p) \<Longrightarrow>
     outcome (start_draft s b uid p) = Caught \<and>
     confirmed (after (start_draft s b uid p)) = confirmed s \<and>
     userId (after (start_draft s b uid p)) = userId s"
  using request_failing [of b draft_url p "''Failed to start draft''"]
  by (auto simp: start_draft_def)

lemma start_draft_cases:
  "(outcome (start_draft s b uid p) = Completed \<and>
      confirmed (after (start_draft s b uid p)) \<and> userId (after (start_draft s b uid p)) = Some uid)
   \<or> (outcome (start_draft s b uid p) = Caught \<and>
      confirmed (after (start_draft s b uid p)) = confirmed s \<and>
      userId (after (start_draft s b uid p)) = userId s)"
  by (auto simp: start_draft_def split: sum.splits)

lemma invalid_username_state:
  "outcome (invalid_username s) = Returned" "confirmed (after (invalid_username s)) = confirmed s"
  "userId (after (invalid_username s)) = userId s"
  by (simp_all add: invalid_username_def)

text \<open>
  Claim C2, as amended. From every starting state, confirming with a valid username and a
  successful draft-start response (the response is ok and its body parses) leaves the
  client confirmed with the parsed id. When the draft-start request fails (the network
  fails, the body is not JSON, or the response is not ok), \<^verbatim>\<open>confirmed\<close> and \<^verbatim>\<open>userId\<close> are
  exactly what they were before the operation: false and null when the client was not
  confirmed, and still confirmed when it was. This holds for both revisions.
\<close>
theorem confirmUser_transitions:
  assumes "parseUserId (username_value b) = Some uid"
  shows "(fetch b draft_url (DraftStart uid (table_of b)) = Response True data \<longrightarrow>
            confirmed (after (confirmUser s b)) \<and> userId (after (confirmUser s b)) = Some uid)
       \<and> (failing (fetch b draft_url (DraftStart uid (table_of b))) \<longrightarrow>
            confirmed (after (confirmUser s b)) = confirmed s \<and>
            userId (after (confirmUser s b)) = userId s)
       \<and> (fetch b draft_url (DraftStartOnly uid) = Response True data \<longrightarrow>
            confirmed (after (confirmUser_prototype s b)) \<and>
            userId (after (confirmUser_prototype s b)) = Some uid)
       \<and> (failing (fetch b draft_url (DraftStartOnly uid)) \<longrightarrow>
            confirmed (after (confirmUser_prototype s b)) = confirmed s \<and>
            userId (after (confirmUser_prototype s b)) = userId s)"
proof -
  have v: "\<not> falsy_id (parseUserId (username_value b))"
    using assms falsy_id_parse [of "username_value b"] by blast
  have c: "confirmUser s b = start_draft s b uid (DraftStart uid (table_of b))"
    using v assms by (simp add: confirmUser_def Let_def)
  have p: "confirmUser_prototype s b = start_draft s b uid (DraftStartOnly uid)"
    using v assms by (simp add: confirmUser_prototype_def Let_def)
  show ?thesis
    unfolding c p using start_draft_ok start_draft_failing by blast
qed

text \<open>
  Witness for C2: from the fresh state, \<^verbatim>\<open>"  User7  "\<close> with table 3 and a successful
  draft-start gives \<^verbatim>\<open>{confirmed: true, userId: 7}\<close>; with the network down the state
  stays \<^verbatim>\<open>{false, null}\<close>.
\<close>
theorem confirmUser_transitions_witness:
  "parseUserId (username_value billing_form) = Some 7
   \<and> confirmed (after (confirmUser fresh_client billing_form))
   \<and> userId (after (confirmUser fresh_client billing_form)) = Some 7
   \<and> failing (fetch offline_form draft_url (DraftStart 7 (table_of offline_form)))
   \<and> confirmed (after (confirmUser fresh_client offline_form)) = False
   \<and> userId (after (confirmUser fresh_client offline_form)) = None"
proof -
  have p: "parseUserId (username_value billing_form) = Some 7" by code_simp
  have p': "parseUserId (username_value offline_form) = Some 7" by code_simp
  have ok: "fetch billing_form draft_url (DraftStart 7 (table_of billing_form))
              = Response True (JObj [(''ok'', JBool True)])" by code_simp
  have bad: "failing (fetch offline_form draft_url (DraftStart 7 (table_of offline_form)))"
    by code_simp
  have f: "confirmed fresh_client = False" "userId fresh_client = None"
    by (simp_all add: fresh_client_def)
  from confirmUser_transitions [OF p, of "JObj [(''ok'', JBool True)]" fresh_client]
    confirmUser_transitions [OF p', of undefined fresh_client] p ok bad f
  show ?thesis by simp
qed

text \<open>
  Counterexample to C2 as stated (any backend failure leaves \<^verbatim>\<open>confirmed\<close> false, from
  every starting state): confirm user 7 successfully, then confirm again with the network
  down. The second run ends in the \<^verbatim>\<open>catch\<close> block and the client is still confirmed.
\<close>
theorem confirm_failure_counterexample:
  "outcome (confirmUser (after (confirmUser fresh_client billing_form)) offline_form) = Caught
   \<and> confirmed (after (confirmUser (after (confirmUser fresh_client billing_form)) offline_form))"
proof -
  have "outcome (confirmUser user7 offline_form) = Caught" by code_simp
  moreover have "confirmed (after (confirmUser user7 offline_form))" by code_simp
  ultimately show ?thesis by (simp add: confirm_billing)
qed

lemma confirmUser_cases:
  "(outcome (confirmUser s b) = Completed \<and> confirmed (after (confirmUser s b)) \<and>
      userId (after (confirmUser s b)) = parseUserId (username_value b) \<and>
      (\<exists>n. parseUserId (username_value b) = Some n))
   \<or> (outcome (confirmUser s b) \<noteq> Completed \<and>
       confirmed (after (confirmUser s b)) = confirmed s \<and>
       userId (after (confirmUser s b)) = userId s)"
proof (cases "falsy_id (parseUserId (username_value b))")
  case True
  then show ?thesis by (simp add: confirmUser_def invalid_username_state)
next
  case False
  then obtain n where n: "parseUserId (username_value b) = Some n"
    by (auto simp: falsy_id_parse)
  from start_draft_cases [of s b n "DraftStart n (table_of b)"] False n show ?thesis
    by (auto simp: confirmUser_def Let_def)
qed

lemma confirmUser_prototype_cases:
  "(outcome (confirmUser_prototype s b) = Completed \<and> confirmed (after (confirmUser_prototype s b)) \<and>
      userId (after (confirmUser_prototype s b)) = parseUserId (username_value b) \<and>
      (\<exists>n. parseUserId (username_value b) = Some n))
   \<or> (outcome (confirmUser_prototype s b) \<noteq> Completed \<and>
       confirmed (after (confirmUser_prototype s b)) = confirmed s \<and>
       userId (after (confirmUser_prototype s b)) = userId s)"
proof (cases "falsy_id (parseUserId (username_value b))")
  case True
  then show ?thesis by (simp add: confirmUser_prototype_def invalid_username_state)
next
  case False
  then obtain n where n: "parseUserId (username_value b) = Some n"
    by (auto simp: falsy_id_parse)
  from start_draft_cases [of s b n "DraftStartOnly n"] False n show ?thesis
    by (auto simp: confirmUser_prototype_def Let_def)
qed

lemma submit_with_cases:
  "(outcome (submit_with steps s b) = Completed \<and> \<not> confirmed (after (submit_with steps s b)) \<and>
      userId (after (submit_with steps s b)) = None)
   \<or> (outcome (submit_with steps s b) \<noteq> Completed \<and> after (submit_with steps s b) = s)"
proof (cases "passes_validation s b")
  case True
  obtain es r where "steps b (the (userId s)) (inquiry_value b)
      (compose_description (inquiry_value b) (trim (Description_value b))) = (es, r)"
    by (cases "steps b (the (userId s)) (inquiry_value b)
      (compose_description (inquiry_value b) (trim (Description_value b)))")
  then show ?thesis
    by (cases r) (simp_all add: submit_with_passes [OF True] conclude_def)
next
  case False
  from submit_with_rejected [OF this, of steps] show ?thesis by auto
qed

lemma confirm_keeps_invariant:
  "session_invariant s \<Longrightarrow> session_invariant (after (confirmUser s b))"
  "session_invariant s \<Longrightarrow> session_invariant (after (confirmUser_prototype s b))"
  using confirmUser_cases [of s b] confirmUser_prototype_cases [of s b]
  by (auto simp: session_invariant_def dest: parseUserId_range)

lemma submit_keeps_invariant:
  "session_invariant s \<Longrightarrow> session_invariant (after (submit_with steps s b))"
  using submit_with_cases [of steps s b] by (auto simp: session_invariant_def)

lemma perform_keeps_invariant:
  "session_invariant s \<Longrightarrow> session_invariant (perform s a)"
  "session_invariant s \<Longrightarrow> session_invariant (perform_prototype s a)"
  by (cases a; simp add: confirm_keeps_invariant submit_keeps_invariant submitForm_def
        submitForm_prototype_def)+

lemma session_keeps_invariant:
  "session_invariant s \<Longrightarrow> session_invariant (foldl perform s acts)"
  "session_invariant s \<Longrightarrow> session_invariant (foldl perform_prototype s acts)"
  by (induction acts arbitrary: s) (simp_all add: perform_keeps_invariant)

text \<open>
  Claim C9. A state with \<^verbatim>\<open>userId = null\<close> and \<^verbatim>\<open>confirmed = false\<close> satisfies the invariant
  (confirmed exactly when \<^verbatim>\<open>userId\<close> is a number in 1..99), and so does the state after any
  sequence of complete runs of \<^verbatim>\<open>confirmUser\<close> and \<^verbatim>\<open>submitForm\<close> from it, in both revisions.
  The two variables change together: \<^verbatim>\<open>confirmUser\<close> leaves both as they were or sets
  \<^verbatim>\<open>confirmed\<close> and stores the parsed id; \<^verbatim>\<open>submitForm\<close> leaves both as they were or clears
  both.
\<close>
theorem session_state_invariant:
  assumes "userId s0 = None" and "\<not> confirmed s0"
  shows "session_invariant s0
       \<and> session_invariant (session s0 acts)
       \<and> session_invariant (session_prototype s0 acts)
       \<and> ((confirmed (after (confirmUser s b)) = confirmed s \<and>
            userId (after (confirmUser s b)) = userId s)
          \<or> (confirmed (after (confirmUser s b)) \<and>
              userId (after (confirmUser s b)) = parseUserId (username_value b)))
       \<and> ((confirmed (after (submitForm s b)) = confirmed s \<and>
            userId (after (submitForm s b)) = userId s)
          \<or> (\<not> confirmed (after (submitForm s b)) \<and> userId (after (submitForm s b)) = None))
       \<and> ((confirmed (after (confirmUser_prototype s b)) = confirmed s \<and>
            userId (after (confirmUser_prototype s b)) = userId s)
          \<or> (confirmed (after (confirmUser_prototype s b)) \<and>
              userId (after (confirmUser_prototype s b)) = parseUserId (username_value b)))
       \<and> ((confirmed (after (submitForm_prototype s b)) = confirmed s \<and>
            userId (after (submitForm_prototype s b)) = userId s)
          \<or> (\<not> confirmed (after (submitForm_prototype s b)) \<and>
              userId (after (submitForm_prototype s b)) = None))"
proof -
  from assms have i: "session_invariant s0" by (simp add: session_invariant_def)
  moreover note session_keeps_invariant [OF i, of acts]
  moreover from confirmUser_cases [of s b]
  have "(confirmed (after (confirmUser s b)) = confirmed s \<and>
            userId (after (confirmUser s b)) = userId s)
          \<or> (confirmed (after (confirmUser s b)) \<and>
              userId (after (confirmUser s b)) = parseUserId (username_value b))"
    by blast
  moreover from submit_with_cases [of negotiate s b]
  have "(confirmed (after (submitForm s b)) = confirmed s \<and>
            userId (after (submitForm s b)) = userId s)
          \<or> (\<not> confirmed (after (submitForm s b)) \<and> userId (after (submitForm s b)) = None)"
    by (auto simp: submitForm_def)
  moreover from confirmUser_prototype_cases [of s b]
  have "(confirmed (after (confirmUser_prototype s b)) = confirmed s \<and>
            userId (after (confirmUser_prototype s b)) = userId s)
          \<or> (confirmed (after (confirmUser_prototype s b)) \<and>
              userId (after (confirmUser_prototype s b)) = parseUserId (username_value b))"
    by blast
  moreover from submit_with_cases [of direct s b]
  have "(confirmed (after (submitForm_prototype s b)) = confirmed s \<and>
            userId (after (submitForm_prototype s b)) = userId s)
          \<or> (\<not> confirmed (after (submitForm_prototype s b)) \<and>
              userId (after (submitForm_prototype s b)) = None)"
    by (auto simp: submitForm_prototype_def)
  ultimately show ?thesis by (simp add: session_def session_prototype_def)
qed

text \<open>
  Witness for C9: the fresh client after a successful confirmation (confirmed, invariant
  holds) and after the submission that follows it (user id cleared, invariant holds).
\<close>
theorem session_state_invariant_witness:
  "session_invariant (session fresh_client [ConfirmUser billing_form])
   \<and> confirmed (session fresh_client [ConfirmUser billing_form])
   \<and> session_invariant (session fresh_client [ConfirmUser billing_form, SubmitForm billing_form])
   \<and> userId (session fresh_client [ConfirmUser billing_form, SubmitForm billing_form]) = None"
proof -
  have f: "userId fresh_client = None" "\<not> confirmed fresh_client"
    by (simp_all add: fresh_client_def)
  have a: "after (confirmUser fresh_client billing_form) = user7" by code_simp
  have c: "confirmed (session fresh_client [ConfirmUser billing_form])"
    by (simp add: session_def a) (simp add: user7_def)
  have "userId (after (submitForm user7 billing_form)) = None" by code_simp
  then have u: "userId (session fresh_client [ConfirmUser billing_form, SubmitForm billing_form]) = None"
    by (simp add: session_def a)
  have "session_invariant (session fresh_client [ConfirmUser billing_form])"
    using session_state_invariant [OF f, of "[ConfirmUser billing_form]" fresh_client billing_form]
    by (rule conjunct2 [THEN conjunct1])
  moreover
  have "session_invariant (session fresh_client [ConfirmUser billing_form, SubmitForm billing_form])"
    using session_state_invariant [OF f, of "[ConfirmUser billing_form, SubmitForm billing_form]"
        fresh_client billing_form]
    by (rule conjunct2 [THEN conjunct1])
  ultimately show ?thesis using c u by simp
qed

section \<open>Finalization and failures\<close>

lemma prompts_map_Prompt: "prompts (map (\<lambda>q. Prompt (f q)) qs) = map f qs"
  by (induction qs) auto

lemma fetches_map_Prompt: "fetches (map (\<lambda>q. Prompt (f q)) qs) = []"
  by (induction qs) auto

lemma finalize_asked:
  assumes "iterate qv = Inr qs" and "\<forall>q\<in>set qs. well_formed_question q"
  shows "\<exists>ans. snd (ask_all b 0 qs []) = Inr ans
           \<and> prompts (fst (finalize b uid qv)) = map expected_prompt qs
           \<and> fetches (fst (finalize b uid qv)) = [(finalize_url, Answers uid ans)]"
proof -
  from ask_all_well_formed [OF assms(2), of b 0 "[]"] obtain ans
    where a: "ask_all b 0 qs [] = (map (\<lambda>q. Prompt (expected_prompt q)) qs, Inr ans)"
    by (metis prod.collapse)
  have "prompts (fst (finalize b uid qv)) = map expected_prompt qs"
    by (simp add: finalize_def assms(1) a Let_def prompts_append prompts_map_Prompt
          split: sum.splits)
  moreover have "fetches (fst (finalize b uid qv)) = [(finalize_url, Answers uid ans)]"
    by (simp add: finalize_def assms(1) a Let_def fetches_append fetches_map_Prompt
          split: sum.splits)
  ultimately show ?thesis using a by simp
qed

lemma finalize_completes:
  assumes "iterate qv = Inr qs" and "\<forall>q\<in>set qs. well_formed_question q"
    and "\<forall>answers. fetch b finalize_url (Answers uid answers) = Response True finData"
    and "finData \<noteq> JNull"
    and "prints (field finData ''time_to_submit_ms'')" and "prints (field finData ''log_table'')"
  shows "snd (finalize b uid qv) = Inr ()"
proof -
  from ask_all_well_formed [OF assms(2), of b 0 "[]"] obtain es ans
    where a: "ask_all b 0 qs [] = (es, Inr ans)"
    by (metis prod.collapse)
  from assms(3) have r: "request b finalize_url (Answers uid ans) ''Failed finalize'' = Inr finData"
    by (simp add: request_ok)
  from assms(4) have t: "property finData ''time_to_submit_ms''
                           = Inr (field finData ''time_to_submit_ms'')"
    by (cases finData) (simp_all add: field_def)
  show ?thesis
    by (simp add: finalize_def assms(1) a Let_def r t prints_ToString [OF assms(5)]
          prints_ToString [OF assms(6)])
qed

lemma finalize_fetches:
  "fetches (fst (finalize b uid qv)) = []
   \<or> (\<exists>ans. fetches (fst (finalize b uid qv)) = [(finalize_url, Answers uid ans)]
         \<and> (failing (fetch b finalize_url (Answers uid ans)) \<longrightarrow>
              (\<exists>e fb. snd (finalize b uid qv) = Inl e
                  \<and> request b finalize_url (Answers uid ans) fb = Inl e)))"
proof (cases "iterate qv")
  case (Inl e)
  then show ?thesis by (simp add: finalize_def)
next
  case (Inr qs)
  obtain es r where a: "ask_all b 0 qs [] = (es, r)" by (cases "ask_all b 0 qs []")
  with ask_all_fetches [of b 0 qs "[]"] have f: "fetches es = []" by simp
  show ?thesis
  proof (cases r)
    case (Inl e)
    with Inr a f show ?thesis by (simp add: finalize_def)
  next
    case ans: (Inr ans)
    have "fetches (fst (finalize b uid qv)) = [(finalize_url, Answers uid ans)]"
      by (simp add: finalize_def Inr a ans f Let_def fetches_append split: sum.splits)
    moreover have "failing (fetch b finalize_url (Answers uid ans)) \<longrightarrow>
              (\<exists>e fb. snd (finalize b uid qv) = Inl e
                  \<and> request b finalize_url (Answers uid ans) fb = Inl e)"
    proof
      assume "failing (fetch b finalize_url (Answers uid ans))"
      from request_failing [OF this, of "''Failed finalize''"] obtain e
        where e: "request b finalize_url (Answers uid ans) ''Failed finalize'' = Inl e" ..
      then have "snd (finalize b uid qv) = Inl e"
        by (simp add: finalize_def Inr a ans Let_def)
      with e show "\<exists>e fb. snd (finalize b uid qv) = Inl e
                  \<and> request b finalize_url (Answers uid ans) fb = Inl e"
        by blast
    qed
    ultimately show ?thesis by blast
  qed
qed

lemma post_ticket_completes:
  assumes "fetch b tickets_url (Ticket uid t d) = Response True data" and "data \<noteq> JNull"
    and "prints (field data ''time_to_submit_ms'')"
  shows "snd (post_ticket b uid t d u) = Inr ()"
proof -
  from assms(2) have "property data ''time_to_submit_ms'' = Inr (field data ''time_to_submit_ms'')"
    by (cases data) (simp_all add: field_def)
  with assms(1) show ?thesis
    by (simp add: post_ticket_def Let_def request_ok prints_ToString [OF assms(3)])
qed

lemma post_ticket_failing:
  "failing (fetch b tickets_url (Ticket uid t d)) \<Longrightarrow>
     \<exists>e fb. snd (post_ticket b uid t d u) = Inl e \<and> request b tickets_url (Ticket uid t d) fb = Inl e"
proof -
  assume "failing (fetch b tickets_url (Ticket uid t d))"
  from request_failing [OF this, of "''Failed to submit ticket''"] obtain e
    where e: "request b tickets_url (Ticket uid t d) ''Failed to submit ticket'' = Inl e" ..
  then have "snd (post_ticket b uid t d u) = Inl e"
    by (simp add: post_ticket_def Let_def)
  with e show ?thesis by blast
qed

lemma negotiate_fetches:
  "fetches (fst (negotiate b uid t d)) = [(followups_url, Ticket uid t d)]
   \<or> fetches (fst (negotiate b uid t d)) = [(followups_url, Ticket uid t d), (tickets_url, Ticket uid t d)]
   \<or> (\<exists>ans. fetches (fst (negotiate b uid t d)) =
               [(followups_url, Ticket uid t d), (finalize_url, Answers uid ans)])"
proof (cases "request b followups_url (Ticket uid t d) ''Failed followups''")
  case (Inl e)
  then show ?thesis by (simp add: negotiate_def)
next
  case (Inr fd)
  show ?thesis
  proof (cases "property fd ''needs_followup''")
    case (Inl e)
    with Inr show ?thesis by (simp add: negotiate_def)
  next
    case nf: (Inr nf)
    from finalize_fetches [of b uid "field fd ''questions''"] show ?thesis
      by (auto simp: negotiate_def Inr nf Let_def post_ticket_fetches case_prod_beta)
  qed
qed

lemma negotiate_failing:
  assumes "(u, p) \<in> set (fetches (fst (negotiate b uid t d)))" and "failing (fetch b u p)"
  shows "(\<exists>e fb. snd (negotiate b uid t d) = Inl e \<and> request b u p fb = Inl e)
         \<and> last (fetches (fst (negotiate b uid t d))) = (u, p)"
proof (cases "request b followups_url (Ticket uid t d) ''Failed followups''")
  case (Inl e)
  with assms have "snd (negotiate b uid t d) = Inl e" "(u, p) = (followups_url, Ticket uid t d)"
    "last (fetches (fst (negotiate b uid t d))) = (u, p)"
    by (auto simp: negotiate_def)
  with Inl show ?thesis by blast
next
  case (Inr fd)
  then have ok: "\<not> failing (fetch b followups_url (Ticket uid t d))"
    by (simp add: request_Inr_iff failing_def)
  show ?thesis
  proof (cases "property fd ''needs_followup''")
    case (Inl e)
    with Inr assms ok show ?thesis by (auto simp: negotiate_def)
  next
    case nf: (Inr nf)
    show ?thesis
    proof (cases "truthy nf")
      case False
      with assms ok Inr nf have "(u, p) = (tickets_url, Ticket uid t d)"
        by (auto simp: negotiate_def Let_def post_ticket_fetches case_prod_beta)
      with assms(2) post_ticket_failing [of b uid t d "''s''"] False show ?thesis
        by (auto simp: negotiate_def Inr nf Let_def post_ticket_fetches case_prod_beta)
    next
      case True
      from finalize_fetches [of b uid "field fd ''questions''"] assms ok True show ?thesis
        by (auto simp: negotiate_def Inr nf Let_def case_prod_beta)
    qed
  qed
qed

lemma direct_failing:
  assumes "(u, p) \<in> set (fetches (fst (direct b uid t d)))" and "failing (fetch b u p)"
  shows "(\<exists>e fb. snd (direct b uid t d) = Inl e \<and> request b u p fb = Inl e)
         \<and> last (fetches (fst (direct b uid t d))) = (u, p)"
  using assms post_ticket_failing [of b uid t d "''ms''"]
  by (auto simp: direct_def post_ticket_fetches)

lemma urls_distinct:
  "followups_url \<noteq> tickets_url" "followups_url \<noteq> finalize_url" "tickets_url \<noteq> finalize_url"
  by (simp_all add: followups_url_def tickets_url_def finalize_url_def)

lemma submit_with_Caught:
  "outcome (submit_with steps s b) = Caught \<Longrightarrow>
     after (submit_with steps s b) = s \<and>
     (\<exists>es err. events (submit_with steps s b) =
        es @ [Alert (''Noe gikk galt: '' @ message (fault_message b) err)])"
proof (cases "passes_validation s b")
  case True
  assume c: "outcome (submit_with steps s b) = Caught"
  obtain es r where "steps b (the (userId s)) (inquiry_value b)
      (compose_description (inquiry_value b) (trim (Description_value b))) = (es, r)"
    by (cases "steps b (the (userId s)) (inquiry_value b)
      (compose_description (inquiry_value b) (trim (Description_value b)))")
  with c show ?thesis
    by (cases r) (auto simp: submit_with_passes [OF True] conclude_def)
next
  case False
  assume "outcome (submit_with steps s b) = Caught"
  with submit_with_rejected [OF False, of steps] show ?thesis by auto
qed

lemma submit_with_fetches:
  "fetches (events (submit_with steps s b)) =
     (if passes_validation s b
      then fetches (fst (steps b (the (userId s)) (inquiry_value b)
                          (compose_description (inquiry_value b) (trim (Description_value b)))))
      else [])"
proof (cases "passes_validation s b")
  case True
  then show ?thesis by (simp add: submit_with_passes fetches_conclude)
next
  case False
  from submit_with_rejected [OF this, of steps] False show ?thesis by auto
qed

lemma submit_with_outcome:
  "passes_validation s b \<Longrightarrow>
     outcome (submit_with steps s b) =
       (case snd (steps b (the (userId s)) (inquiry_value b)
                    (compose_description (inquiry_value b) (trim (Description_value b)))) of
          Inl e \<Rightarrow> Caught | Inr u \<Rightarrow> Completed)"
  by (simp add: submit_with_passes conclude_def case_prod_beta split: sum.splits)

lemma submit_with_last_alert:
  assumes "passes_validation s b"
    and "snd (steps b (the (userId s)) (inquiry_value b)
                (compose_description (inquiry_value b) (trim (Description_value b)))) = Inl e"
  shows "last (events (submit_with steps s b))
           = Alert (''Noe gikk galt: '' @ message (fault_message b) e)"
proof -
  obtain es where "steps b (the (userId s)) (inquiry_value b)
      (compose_description (inquiry_value b) (trim (Description_value b))) = (es, Inl e)"
    using assms(2) by (metis prod.collapse)
  then show ?thesis by (simp add: submit_with_passes [OF assms(1)] conclude_def)
qed

text \<open>
  Claim C8. When a run of \<^verbatim>\<open>submitForm\<close> ends in its \<^verbatim>\<open>catch\<close> block, the state is exactly
  what it was when the run began, the last thing shown is the alert \<^verbatim>\<open>Noe gikk galt: \<close>
  followed by the error's message, and no endpoint was requested twice. Every request of a
  run that fails (network failure, body that is not JSON, response that is not ok) ends the
  run there: the run ends in the \<^verbatim>\<open>catch\<close> block and that request is its last; and when
  the failure carries a message (the network's, or the \<^verbatim>\<open>error\<close> field of the response),
  that message is the one the alert reports. Both revisions.
\<close>
theorem submit_exception_keeps_state:
  "(outcome (submitForm s b) = Caught \<longrightarrow>
      after (submitForm s b) = s \<and>
      (\<exists>es err. events (submitForm s b) =
         es @ [Alert (''Noe gikk galt: '' @ message (fault_message b) err)]) \<and>
      distinct (map fst (fetches (events (submitForm s b)))))
   \<and> ((u, p) \<in> set (fetches (events (submitForm s b))) \<and> failing (fetch b u p) \<longrightarrow>
        outcome (submitForm s b) = Caught \<and> last (fetches (events (submitForm s b))) = (u, p))
   \<and> ((u, p) \<in> set (fetches (events (submitForm s b))) \<and> failure_message (fetch b u p) = Some m \<longrightarrow>
        last (events (submitForm s b)) = Alert (''Noe gikk galt: '' @ m))
   \<and> (outcome (submitForm_prototype s b) = Caught \<longrightarrow>
      after (submitForm_prototype s b) = s \<and>
      (\<exists>es err. events (submitForm_prototype s b) =
         es @ [Alert (''Noe gikk galt: '' @ message (fault_message b) err)]) \<and>
      distinct (map fst (fetches (events (submitForm_prototype s b)))))
   \<and> ((u, p) \<in> set (fetches (events (submitForm_prototype s b))) \<and> failing (fetch b u p) \<longrightarrow>
        outcome (submitForm_prototype s b) = Caught \<and>
        last (fetches (events (submitForm_prototype s b))) = (u, p))
   \<and> ((u, p) \<in> set (fetches (events (submitForm_prototype s b)))
        \<and> failure_message (fetch b u p) = Some m \<longrightarrow>
        last (events (submitForm_prototype s b)) = Alert (''Noe gikk galt: '' @ m))"
proof -
  let ?uid = "the (userId s)" and ?t = "inquiry_value b"
  let ?d = "compose_description (inquiry_value b) (trim (Description_value b))"
  have d1: "distinct (map fst (fetches (events (submitForm s b))))"
    using negotiate_fetches [of b ?uid ?t ?d] urls_distinct
    by (auto simp: submitForm_def submit_with_fetches)
  have d2: "distinct (map fst (fetches (events (submitForm_prototype s b))))"
    by (simp add: submitForm_prototype_def submit_with_fetches direct_def post_ticket_fetches)
  have f1: "(u, p) \<in> set (fetches (events (submitForm s b))) \<and> failing (fetch b u p) \<longrightarrow>
        outcome (submitForm s b) = Caught \<and> last (fetches (events (submitForm s b))) = (u, p)"
  proof
    assume a: "(u, p) \<in> set (fetches (events (submitForm s b))) \<and> failing (fetch b u p)"
    then have v: "passes_validation s b"
      by (auto simp: submitForm_def submit_with_fetches split: if_splits)
    with a have "(u, p) \<in> set (fetches (fst (negotiate b ?uid ?t ?d)))"
      by (simp add: submitForm_def submit_with_fetches)
    from negotiate_failing [OF this] a v
    show "outcome (submitForm s b) = Caught \<and> last (fetches (events (submitForm s b))) = (u, p)"
      by (auto simp: submitForm_def submit_with_fetches submit_with_outcome)
  qed
  have f2: "(u, p) \<in> set (fetches (events (submitForm_prototype s b))) \<and> failing (fetch b u p) \<longrightarrow>
        outcome (submitForm_prototype s b) = Caught \<and>
        last (fetches (events (submitForm_prototype s b))) = (u, p)"
  proof
    assume a: "(u, p) \<in> set (fetches (events (submitForm_prototype s b))) \<and> failing (fetch b u p)"
    then have v: "passes_validation s b"
      by (auto simp: submitForm_prototype_def submit_with_fetches split: if_splits)
    with a have "(u, p) \<in> set (fetches (fst (direct b ?uid ?t ?d)))"
      by (simp add: submitForm_prototype_def submit_with_fetches)
    from direct_failing [OF this] a v
    show "outcome (submitForm_prototype s b) = Caught \<and>
        last (fetches (events (submitForm_prototype s b))) = (u, p)"
      by (auto simp: submitForm_prototype_def submit_with_fetches submit_with_outcome)
  qed
  have m1: "(u, p) \<in> set (fetches (events (submitForm s b))) \<and> failure_message (fetch b u p) = Some m
        \<longrightarrow> last (events (submitForm s b)) = Alert (''Noe gikk galt: '' @ m)"
  proof
    assume a: "(u, p) \<in> set (fetches (events (submitForm s b)))
                 \<and> failure_message (fetch b u p) = Some m"
    then have v: "passes_validation s b"
      by (auto simp: submitForm_def submit_with_fetches split: if_splits)
    with a have "(u, p) \<in> set (fetches (fst (negotiate b ?uid ?t ?d)))"
      by (simp add: submitForm_def submit_with_fetches)
    from negotiate_failing [OF this] a obtain e fb
      where e: "snd (negotiate b ?uid ?t ?d) = Inl e" "request b u p fb = Inl e"
      by (auto dest: failure_message_failing)
    from a e(2) have "message (fault_message b) e = m"
      by (auto dest: request_failure_message)
    with submit_with_last_alert [of s b negotiate e, OF v e(1)]
    show "last (events (submitForm s b)) = Alert (''Noe gikk galt: '' @ m)"
      by (simp add: submitForm_def)
  qed
  have m2: "(u, p) \<in> set (fetches (events (submitForm_prototype s b)))
        \<and> failure_message (fetch b u p) = Some m
        \<longrightarrow> last (events (submitForm_prototype s b)) = Alert (''Noe gikk galt: '' @ m)"
  proof
    assume a: "(u, p) \<in> set (fetches (events (submitForm_prototype s b)))
                 \<and> failure_message (fetch b u p) = Some m"
    then have v: "passes_validation s b"
      by (auto simp: submitForm_prototype_def submit_with_fetches split: if_splits)
    with a have "(u, p) \<in> set (fetches (fst (direct b ?uid ?t ?d)))"
      by (simp add: submitForm_prototype_def submit_with_fetches)
    from direct_failing [OF this] a obtain e fb
      where e: "snd (direct b ?uid ?t ?d) = Inl e" "request b u p fb = Inl e"
      by (auto dest: failure_message_failing)
    from a e(2) have "message (fault_message b) e = m"
      by (auto dest: request_failure_message)
    with submit_with_last_alert [of s b direct e, OF v e(1)]
    show "last (events (submitForm_prototype s b)) = Alert (''Noe gikk galt: '' @ m)"
      by (simp add: submitForm_prototype_def)
  qed
  have c1: "outcome (submitForm s b) = Caught \<longrightarrow>
      after (submitForm s b) = s \<and>
      (\<exists>es err. events (submitForm s b) =
         es @ [Alert (''Noe gikk galt: '' @ message (fault_message b) err)]) \<and>
      distinct (map fst (fetches (events (submitForm s b))))"
    using d1 submit_with_Caught [of negotiate s b] by (simp add: submitForm_def)
  have c2: "outcome (submitForm_prototype s b) = Caught \<longrightarrow>
      after (submitForm_prototype s b) = s \<and>
      (\<exists>es err. events (submitForm_prototype s b) =
         es @ [Alert (''Noe gikk galt: '' @ message (fault_message b) err)]) \<and>
      distinct (map fst (fetches (events (submitForm_prototype s b))))"
    using d2 submit_with_Caught [of direct s b] by (simp add: submitForm_prototype_def)
  show ?thesis
    by (rule conjI [OF c1 conjI [OF f1 conjI [OF m1 conjI [OF c2 conjI [OF f2 m2]]]]])
qed

text \<open>
  Witness for C8: user 7 submits the billing form with the network down, and to a back end
  that answers the ticket request with status not ok and \<^verbatim>\<open>{error: "Draft expired"}\<close>.
\<close>
theorem submit_exception_keeps_state_witness:
  "failing (fetch offline_form followups_url billing_ticket)
   \<and> outcome (submitForm user7 offline_form) = Caught
   \<and> after (submitForm user7 offline_form) = user7
   \<and> events (submitForm user7 offline_form)
       = [Fetch followups_url billing_ticket, Alert ''Noe gikk galt: Failed to fetch'']
   \<and> failure_message (fetch rejecting_form tickets_url billing_ticket) = Some ''Draft expired''
   \<and> outcome (submitForm user7 rejecting_form) = Caught
   \<and> after (submitForm user7 rejecting_form) = user7
   \<and> last (events (submitForm user7 rejecting_form)) = Alert ''Noe gikk galt: Draft expired''
   \<and> last (events (submitForm_prototype user7 rejecting_form))
       = Alert ''Noe gikk galt: Draft expired''"
proof -
  have f: "failing (fetch offline_form followups_url billing_ticket)" by code_simp
  have e: "events (submitForm user7 offline_form)
             = [Fetch followups_url billing_ticket, Alert ''Noe gikk galt: Failed to fetch'']"
    by code_simp
  then have i: "(followups_url, billing_ticket) \<in> set (fetches (events (submitForm user7 offline_form)))"
    by simp
  have m: "failure_message (fetch rejecting_form tickets_url billing_ticket) = Some ''Draft expired''"
    by code_simp
  then have g: "failing (fetch rejecting_form tickets_url billing_ticket)"
    by (rule failure_message_failing)
  have "fetches (events (submitForm user7 rejecting_form))
          = [(followups_url, billing_ticket), (tickets_url, billing_ticket)]"
    by code_simp
  then have j: "(tickets_url, billing_ticket) \<in> set (fetches (events (submitForm user7 rejecting_form)))"
    by simp
  have "fetches (events (submitForm_prototype user7 rejecting_form)) = [(tickets_url, billing_ticket)]"
    by code_simp
  then have k: "(tickets_url, billing_ticket)
                  \<in> set (fetches (events (submitForm_prototype user7 rejecting_form)))"
    by simp
  note offline = submit_exception_keeps_state [of user7 offline_form followups_url billing_ticket]
  note rejecting = submit_exception_keeps_state
      [of user7 rejecting_form tickets_url billing_ticket "''Draft expired''"]
  from offline f i have 1: "outcome (submitForm user7 offline_form) = Caught" by blast
  with offline have 2: "after (submitForm user7 offline_form) = user7" by blast
  from rejecting g j have 3: "outcome (submitForm user7 rejecting_form) = Caught" by blast
  with rejecting have 4: "after (submitForm user7 rejecting_form) = user7" by blast
  from rejecting m j
  have 5: "last (events (submitForm user7 rejecting_form)) = Alert ''Noe gikk galt: Draft expired''"
    by simp
  from rejecting m k
  have 6: "last (events (submitForm_prototype user7 rejecting_form))
             = Alert ''Noe gikk galt: Draft expired''"
    by simp
  from f e m 1 2 3 4 5 6 show ?thesis by simp
qed

section \<open>Successful submissions\<close>

lemma submit_with_unconfirmed:
  "\<not> confirmed s \<Longrightarrow>
     outcome (submit_with steps s b) = Returned \<and> fetches (events (submit_with steps s b)) = []"
  by (simp add: submit_with_def rejected_def)

lemma negotiate_direct_completes:
  assumes "fetch b followups_url (Ticket uid t d) = Response True fd"
    and "property fd ''needs_followup'' = Inr nf" and "\<not> truthy nf"
    and "fetch b tickets_url (Ticket uid t d) = Response True data" and "data \<noteq> JNull"
    and "prints (field data ''time_to_submit_ms'')"
  shows "snd (negotiate b uid t d) = Inr ()"
  by (simp add: negotiate_no_followup [OF assms(1-3)] post_ticket_completes [OF assms(4-6)])

lemma negotiate_followup_completes:
  assumes "fetch b followups_url (Ticket uid t d) = Response True fd"
    and "property fd ''needs_followup'' = Inr nf" and "truthy nf"
    and "field fd ''questions'' = Some (JArr qs)" and "\<forall>q\<in>set qs. well_formed_question q"
    and "\<forall>answers. fetch b finalize_url (Answers uid answers) = Response True fin"
    and "fin \<noteq> JNull"
    and "prints (field fin ''time_to_submit_ms'')" and "prints (field fin ''log_table'')"
  shows "snd (negotiate b uid t d) = Inr ()"
proof -
  have "iterate (field fd ''questions'') = Inr qs" by (simp add: assms(4))
  from finalize_completes [OF this assms(5-9)] show ?thesis
    by (simp add: negotiate_followup [OF assms(1-3)])
qed

text \<open>
  Claim C3. When \<^verbatim>\<open>submitForm\<close> runs to the end of its \<^verbatim>\<open>try\<close> block, the state has
  \<^verbatim>\<open>confirmed = false\<close> and \<^verbatim>\<open>userId = null\<close>; the next submission is rejected without a
  network call, and stays rejected after a confirmation that does not succeed; after a
  confirmation that succeeds, a submission is accepted again as soon as its fields are
  valid. Both successful paths end this way: direct ticket creation (follow-ups not
  needed, the ticket endpoint answers ok with a body that is not null and whose
  \<^verbatim>\<open>time_to_submit_ms\<close> prints), and follow-up finalization (follow-ups needed, an array of
  well-formed questions, the finalize endpoint answers ok with a body that is not null and
  whose \<^verbatim>\<open>time_to_submit_ms\<close> and \<^verbatim>\<open>log_table\<close> print). A run in which a conversion to a
  string throws is not a successful path: it ends in the \<^verbatim>\<open>catch\<close> block. The same holds
  for the earlier revision, whose only path is direct ticket creation.
\<close>
theorem submission_resets_session:
  assumes "r = submitForm s b" and "r' = submitForm_prototype s b"
    and "payload = Ticket (the (userId s)) (inquiry_value b)
                     (compose_description (inquiry_value b) (trim (Description_value b)))"
  shows "(outcome r = Completed \<longrightarrow>
            \<not> confirmed (after r) \<and> userId (after r) = None
            \<and> outcome (submitForm (after r) b1) = Returned
            \<and> fetches (events (submitForm (after r) b1)) = []
            \<and> (outcome (confirmUser (after r) b1) \<noteq> Completed \<longrightarrow>
                 outcome (submitForm (after (confirmUser (after r) b1)) b2) = Returned
                 \<and> fetches (events (submitForm (after (confirmUser (after r) b1)) b2)) = [])
            \<and> (outcome (confirmUser (after r) b1) = Completed \<longrightarrow>
                 passes_validation (after (confirmUser (after r) b1)) b1
                   = (inquiry_value b1 \<noteq> [] \<and> inquiry_value b1 \<noteq> ''-- Velg --''
                      \<and> trim (Description_value b1) \<noteq> [])))
       \<and> (passes_validation s b \<and> fetch b followups_url payload = Response True followData
            \<and> property followData ''needs_followup'' = Inr needs \<and> \<not> truthy needs
            \<and> fetch b tickets_url payload = Response True data \<and> data \<noteq> JNull
            \<and> prints (field data ''time_to_submit_ms'')
          \<longrightarrow> outcome r = Completed)
       \<and> (passes_validation s b \<and> fetch b followups_url payload = Response True followData
            \<and> property followData ''needs_followup'' = Inr needs \<and> truthy needs
            \<and> field followData ''questions'' = Some (JArr qs)
            \<and> (\<forall>q\<in>set qs. well_formed_question q)
            \<and> (\<forall>answers. fetch b finalize_url (Answers (the (userId s)) answers)
                           = Response True finData)
            \<and> finData \<noteq> JNull
            \<and> prints (field finData ''time_to_submit_ms'') \<and> prints (field finData ''log_table'')
          \<longrightarrow> outcome r = Completed)
       \<and> (outcome r' = Completed \<longrightarrow>
            \<not> confirmed (after r') \<and> userId (after r') = None
            \<and> outcome (submitForm_prototype (after r') b1) = Returned
            \<and> fetches (events (submitForm_prototype (after r') b1)) = []
            \<and> (outcome (confirmUser_prototype (after r') b1) \<noteq> Completed \<longrightarrow>
                 outcome (submitForm_prototype (after (confirmUser_prototype (after r') b1)) b2)
                   = Returned
                 \<and> fetches (events (submitForm_prototype
                                      (after (confirmUser_prototype (after r') b1)) b2)) = [])
            \<and> (outcome (confirmUser_prototype (after r') b1) = Completed \<longrightarrow>
                 passes_validation (after (confirmUser_prototype (after r') b1)) b1
                   = (inquiry_value b1 \<noteq> [] \<and> inquiry_value b1 \<noteq> ''-- Velg --''
                      \<and> trim (Description_value b1) \<noteq> [])))
       \<and> (passes_validation s b \<and> fetch b tickets_url payload = Response True data
            \<and> data \<noteq> JNull \<and> prints (field data ''time_to_submit_ms'')
          \<longrightarrow> outcome r' = Completed)"
proof -
  let ?uid = "the (userId s)" and ?t = "inquiry_value b"
  let ?d = "compose_description (inquiry_value b) (trim (Description_value b))"
  have reset: "outcome r = Completed \<longrightarrow> \<not> confirmed (after r) \<and> userId (after r) = None"
    using submit_with_cases [of negotiate s b] by (auto simp: assms(1) submitForm_def)
  have reset': "outcome r' = Completed \<longrightarrow> \<not> confirmed (after r') \<and> userId (after r') = None"
    using submit_with_cases [of direct s b] by (auto simp: assms(2) submitForm_prototype_def)
  have locked: "\<not> confirmed c \<longrightarrow>
      outcome (submitForm c b1) = Returned \<and> fetches (events (submitForm c b1)) = []
      \<and> (outcome (confirmUser c b1) \<noteq> Completed \<longrightarrow>
           outcome (submitForm (after (confirmUser c b1)) b2) = Returned
           \<and> fetches (events (submitForm (after (confirmUser c b1)) b2)) = [])
      \<and> (outcome (confirmUser c b1) = Completed \<longrightarrow>
           passes_validation (after (confirmUser c b1)) b1
             = (inquiry_value b1 \<noteq> [] \<and> inquiry_value b1 \<noteq> ''-- Velg --''
                \<and> trim (Description_value b1) \<noteq> []))" for c
    using confirmUser_cases [of c b1] submit_with_unconfirmed [of _ negotiate]
    by (auto simp: submitForm_def passes_validation_def falsy_id_def parseUserId_not_zero)
  have locked': "\<not> confirmed c \<longrightarrow>
      outcome (submitForm_prototype c b1) = Returned
      \<and> fetches (events (submitForm_prototype c b1)) = []
      \<and> (outcome (confirmUser_prototype c b1) \<noteq> Completed \<longrightarrow>
           outcome (submitForm_prototype (after (confirmUser_prototype c b1)) b2) = Returned
           \<and> fetches (events (submitForm_prototype (after (confirmUser_prototype c b1)) b2)) = [])
      \<and> (outcome (confirmUser_prototype c b1) = Completed \<longrightarrow>
           passes_validation (after (confirmUser_prototype c b1)) b1
             = (inquiry_value b1 \<noteq> [] \<and> inquiry_value b1 \<noteq> ''-- Velg --''
                \<and> trim (Description_value b1) \<noteq> []))"
    for c
    using confirmUser_prototype_cases [of c b1] submit_with_unconfirmed [of _ direct]
    by (auto simp: submitForm_prototype_def passes_validation_def falsy_id_def
          parseUserId_not_zero)
  have direct_path: "passes_validation s b \<and> fetch b followups_url payload = Response True followData
            \<and> property followData ''needs_followup'' = Inr needs \<and> \<not> truthy needs
            \<and> fetch b tickets_url payload = Response True data \<and> data \<noteq> JNull
            \<and> prints (field data ''time_to_submit_ms'')
          \<longrightarrow> outcome r = Completed"
    using negotiate_direct_completes [of b ?uid ?t ?d followData needs data]
    by (auto simp: assms(1,3) submitForm_def submit_with_outcome)
  have followup_path: "passes_validation s b \<and> fetch b followups_url payload = Response True followData
            \<and> property followData ''needs_followup'' = Inr needs \<and> truthy needs
            \<and> field followData ''questions'' = Some (JArr qs)
            \<and> (\<forall>q\<in>set qs. well_formed_question q)
            \<and> (\<forall>answers. fetch b finalize_url (Answers (the (userId s)) answers)
                           = Response True finData)
            \<and> finData \<noteq> JNull
            \<and> prints (field finData ''time_to_submit_ms'') \<and> prints (field finData ''log_table'')
          \<longrightarrow> outcome r = Completed"
    using negotiate_followup_completes [of b ?uid ?t ?d followData needs qs finData]
    by (auto simp: assms(1,3) submitForm_def submit_with_outcome)
  have proto_path: "passes_validation s b \<and> fetch b tickets_url payload = Response True data
            \<and> data \<noteq> JNull \<and> prints (field data ''time_to_submit_ms'')
            \<longrightarrow> outcome r' = Completed"
    using post_ticket_completes [of b ?uid ?t ?d data "''ms''"]
    by (auto simp: assms(2,3) submitForm_prototype_def submit_with_outcome direct_def)
  from reset reset' locked [of "after r"] locked' [of "after r'"] direct_path followup_path proto_path
  show ?thesis by blast
qed

text \<open>
  Witness for C3: user 7 submits the billing form on the direct path, on the follow-up
  path with two questions, and in the earlier revision; each run completes and resets the
  state, and a second submission from the reset state is rejected, also after a
  confirmation that failed; after a confirmation that succeeded it passes validation.
\<close>
theorem submission_resets_session_witness:
  "outcome (submitForm user7 billing_form) = Completed
   \<and> confirmed (after (submitForm user7 billing_form)) = False
   \<and> userId (after (submitForm user7 billing_form)) = None
   \<and> outcome (submitForm (after (submitForm user7 billing_form)) billing_form) = Returned
   \<and> outcome (submitForm user7 (asking_form [question_product, question_since] [Some '' B '', None]))
       = Completed
   \<and> userId (after (submitForm user7
                      (asking_form [question_product, question_since] [Some '' B '', None]))) = None
   \<and> outcome (submitForm_prototype user7 billing_form) = Completed
   \<and> userId (after (submitForm_prototype user7 billing_form)) = None
   \<and> outcome (confirmUser (after (submitForm user7 billing_form)) offline_form) = Caught
   \<and> outcome (submitForm (after (confirmUser (after (submitForm user7 billing_form)) offline_form))
                billing_form) = Returned
   \<and> outcome (confirmUser (after (submitForm user7 billing_form)) billing_form) = Completed
   \<and> passes_validation (after (confirmUser (after (submitForm user7 billing_form)) billing_form))
         billing_form"
proof -
  let ?qs = "[question_product, question_since]"
  let ?b = "asking_form ?qs [Some '' B '', None]"
  have v: "passes_validation user7 billing_form" by code_simp
  have f: "fetch billing_form followups_url billing_ticket
             = Response True (JObj [(''needs_followup'', JBool False)])" by code_simp
  have n: "property (JObj [(''needs_followup'', JBool False)]) ''needs_followup''
             = Inr (Some (JBool False))" "\<not> truthy (Some (JBool False))" by simp_all
  have t: "fetch billing_form tickets_url billing_ticket
             = Response True (JObj [(''time_to_submit_ms'', JNum ''5120'')])" by code_simp
  have d: "JObj [(''time_to_submit_ms'', JNum ''5120'')] \<noteq> JNull"
    "prints (field (JObj [(''time_to_submit_ms'', JNum ''5120'')]) ''time_to_submit_ms'')"
    by code_simp+
  have wp: "well_formed_question question_product" by code_simp
  have ws: "well_formed_question question_since" by code_simp
  from wp ws have nn: "\<forall>q\<in>set ?qs. well_formed_question q" by simp
  have fin: "\<forall>answers. fetch ?b finalize_url (Answers (the (userId user7)) answers)
                  = Response True finalized_data"
    by (simp add: asking_finalize)
  have fd: "finalized_data \<noteq> JNull" "prints (field finalized_data ''time_to_submit_ms'')"
    "prints (field finalized_data ''log_table'')"
    by code_simp+
  have u: "the (userId user7) = 7" by (simp add: user7_def)
  note direct = submission_resets_session [OF refl refl billing_payload [symmetric],
      of billing_form billing_form "JObj [(''needs_followup'', JBool False)]" "Some (JBool False)"
        "JObj [(''time_to_submit_ms'', JNum ''5120'')]" "[]" JNull]
  note asked = submission_resets_session [OF refl refl asking_payload [symmetric],
      of ?qs "[Some '' B '', None]" billing_form billing_form "asking_data ?qs" "Some (JBool True)" JNull
        ?qs finalized_data]
  from direct v f n t d have 1: "outcome (submitForm user7 billing_form) = Completed" by blast
  from direct v t d have 2: "outcome (submitForm_prototype user7 billing_form) = Completed" by blast
  from asked asking_validation asking_followups asking_data_fields nn fin fd
  have 3: "outcome (submitForm user7 ?b) = Completed" by simp
  from direct 1 have 4: "\<not> confirmed (after (submitForm user7 billing_form))
      \<and> userId (after (submitForm user7 billing_form)) = None
      \<and> outcome (submitForm (after (submitForm user7 billing_form)) billing_form) = Returned"
    by blast
  from asked 3 have 5: "userId (after (submitForm user7 ?b)) = None" by blast
  from direct 2 have 6: "userId (after (submitForm_prototype user7 billing_form)) = None" by blast
  have l: "after (submitForm user7 billing_form) = locked_client" by code_simp
  have 7: "outcome (confirmUser (after (submitForm user7 billing_form)) offline_form) = Caught"
    unfolding l by code_simp
  have 8: "outcome (confirmUser (after (submitForm user7 billing_form)) billing_form) = Completed"
    unfolding l by code_simp
  have i: "inquiry_value billing_form \<noteq> [] \<and> inquiry_value billing_form \<noteq> ''-- Velg --''
             \<and> trim (Description_value billing_form) \<noteq> []"
    by code_simp
  note relock = submission_resets_session [OF refl refl billing_payload [symmetric],
      of offline_form billing_form JNull None JNull "[]" JNull]
  from relock 1 7
  have 9: "outcome (submitForm (after (confirmUser (after (submitForm user7 billing_form))
                                    offline_form)) billing_form) = Returned"
    by simp
  from direct 1 8 i
  have 10: "passes_validation
              (after (confirmUser (after (submitForm user7 billing_form)) billing_form)) billing_form"
    by simp
  from 1 2 3 4 5 6 7 8 9 10 show ?thesis by simp
qed

text \<open>
  Claim C10. For a question of type \<^verbatim>\<open>multiple_choice\<close> whose \<^verbatim>\<open>choices\<close> is absent, not an
  array, or the empty array, the loop makes the call \<^verbatim>\<open>prompt(q.question)\<close>: the prompt is
  given the value of \<^verbatim>\<open>q.question\<close> alone whenever that value prints, and the call behaves
  in every case as it does for a question of type \<^verbatim>\<open>free_text\<close> with the same question. In
  a run of \<^verbatim>\<open>submitForm\<close> on the follow-up path with well-formed questions, the prompt
  shown at that question's position is \<^verbatim>\<open>q.question\<close>.
\<close>
theorem degenerate_multiple_choice_prompt:
  assumes "property q ''type'' = Inr (Some (JStr ''multiple_choice''))"
    and "field q ''choices'' = None
         \<or> (\<exists>v. field q ''choices'' = Some v \<and> (\<forall>cs. v \<noteq> JArr cs))
         \<or> field q ''choices'' = Some (JArr [])"
  shows "prompt_message q = prompt_argument (field q ''question'')
       \<and> (prints (field q ''question'') \<longrightarrow> prompt_message q = Inr (field q ''question''))
       \<and> (property q' ''type'' = Inr (Some (JStr ''free_text''))
            \<and> field q' ''question'' = field q ''question''
          \<longrightarrow> prompt_message q' = prompt_message q)
       \<and> (passes_validation s b
            \<and> fetch b followups_url
                 (Ticket (the (userId s)) (inquiry_value b)
                    (compose_description (inquiry_value b) (trim (Description_value b))))
               = Response True followData
            \<and> property followData ''needs_followup'' = Inr needs \<and> truthy needs
            \<and> field followData ''questions'' = Some (JArr qs)
            \<and> (\<forall>x\<in>set qs. well_formed_question x)
            \<and> i < length qs \<and> qs ! i = q
          \<longrightarrow> length (prompts (events (submitForm s b))) = length qs
              \<and> prompts (events (submitForm s b)) ! i = field q ''question'')"
proof -
  from assms(2) have n: "\<not> is_nonempty_array (field q ''choices'')"
    by (auto simp: is_nonempty_array_def split: option.splits json.splits)
  with assms(1) have 1: "prompt_message q = prompt_argument (field q ''question'')"
    by (simp add: prompt_message_def)
  have 2: "prints (field q ''question'') \<longrightarrow> prompt_message q = Inr (field q ''question'')"
    unfolding 1
    by (auto simp: prompt_argument_def prints_def ToString_value_def split: option.splits sum.splits)
  have 3: "property q' ''type'' = Inr (Some (JStr ''free_text''))
            \<and> field q' ''question'' = field q ''question''
          \<longrightarrow> prompt_message q' = prompt_message q"
    by (simp add: 1) (simp add: prompt_message_def)
  from assms(1) have t: "field q ''type'' = Some (JStr ''multiple_choice'')"
    by (simp add: field_def)
  from n t have e: "expected_prompt q = field q ''question''"
    by (simp add: expected_prompt_def)
  have 4: "passes_validation s b
            \<and> fetch b followups_url
                 (Ticket (the (userId s)) (inquiry_value b)
                    (compose_description (inquiry_value b) (trim (Description_value b))))
               = Response True followData
            \<and> property followData ''needs_followup'' = Inr needs \<and> truthy needs
            \<and> field followData ''questions'' = Some (JArr qs)
            \<and> (\<forall>x\<in>set qs. well_formed_question x)
            \<and> i < length qs \<and> qs ! i = q
          \<longrightarrow> length (prompts (events (submitForm s b))) = length qs
              \<and> prompts (events (submitForm s b)) ! i = field q ''question''"
  proof
    let ?uid = "the (userId s)" and ?t = "inquiry_value b"
    let ?d = "compose_description (inquiry_value b) (trim (Description_value b))"
    assume a: "passes_validation s b
            \<and> fetch b followups_url (Ticket ?uid ?t ?d) = Response True followData
            \<and> property followData ''needs_followup'' = Inr needs \<and> truthy needs
            \<and> field followData ''questions'' = Some (JArr qs)
            \<and> (\<forall>x\<in>set qs. well_formed_question x)
            \<and> i < length qs \<and> qs ! i = q"
    then have it: "iterate (field followData ''questions'') = Inr qs" by simp
    from a have wf: "\<forall>x\<in>set qs. well_formed_question x" by blast
    from a have n: "negotiate b ?uid ?t ?d =
           (Fetch followups_url (Ticket ?uid ?t ?d)
              # fst (finalize b ?uid (field followData ''questions'')),
            snd (finalize b ?uid (field followData ''questions'')))"
      by (intro negotiate_followup) auto
    from finalize_asked [OF it wf, of b ?uid]
    have "prompts (events (submitForm s b)) = map expected_prompt qs"
      using a by (auto simp: submitForm_def submit_with_passes prompts_conclude n)
    with a e show "length (prompts (events (submitForm s b))) = length qs
              \<and> prompts (events (submitForm s b)) ! i = field q ''question''"
      by auto
  qed
  show ?thesis by (rule conjI [OF 1 conjI [OF 2 conjI [OF 3 4]]])
qed

text \<open>
  Witness for C10: a multiple-choice question with an empty list of choices, asked second
  in a run.
\<close>
theorem degenerate_multiple_choice_prompt_witness:
  "property question_no_choices ''type'' = Inr (Some (JStr ''multiple_choice''))
   \<and> field question_no_choices ''choices'' = Some (JArr [])
   \<and> prompt_message question_no_choices = Inr (Some (JStr ''Which plan?''))
   \<and> prompts (events (submitForm user7 (asking_form [question_product, question_no_choices] []))) ! 1
       = Some (JStr ''Which plan?'')"
proof -
  let ?qs = "[question_product, question_no_choices]"
  let ?b = "asking_form ?qs []"
  have t: "property question_no_choices ''type'' = Inr (Some (JStr ''multiple_choice''))"
    by code_simp
  have c: "field question_no_choices ''choices'' = Some (JArr [])" by code_simp
  have q: "field question_no_choices ''question'' = Some (JStr ''Which plan?'')" by code_simp
  have v: "passes_validation user7 ?b" by code_simp
  have f: "fetch ?b followups_url
             (Ticket (the (userId user7)) (inquiry_value ?b)
                (compose_description (inquiry_value ?b) (trim (Description_value ?b))))
           = Response True (asking_data ?qs)" by code_simp
  have n: "property (asking_data ?qs) ''needs_followup'' = Inr (Some (JBool True))" by code_simp
  have l: "field (asking_data ?qs) ''questions'' = Some (JArr ?qs)" by code_simp
  have wp: "well_formed_question question_product" by code_simp
  have wn: "well_formed_question question_no_choices" by code_simp
  from wp wn have nn: "\<forall>x\<in>set ?qs. well_formed_question x" by simp
  have pr: "prints (field question_no_choices ''question'')" by code_simp
  from degenerate_multiple_choice_prompt [OF t, of undefined user7 ?b "asking_data ?qs"
      "Some (JBool True)" ?qs 1] t c q v f n l nn pr
  show ?thesis by (simp add: prompt_argument_def)
qed

section \<open>Prompts and answers of the follow-up path\<close>

lemma expected_prompt_choices:
  "field q ''type'' = Some (JStr ''multiple_choice'') \<Longrightarrow> field q ''choices'' = Some (JArr cs) \<Longrightarrow>
   cs \<noteq> [] \<Longrightarrow>
   expected_prompt q =
     Some (JStr (printed (field q ''question'') @ ''\<newline>Valg:\<newline>- ''
                   @ join ''\<newline>- '' (map printed_choice cs)))"
  by (simp add: expected_prompt_def is_nonempty_array_def array_elements_def)

text \<open>
  Claim C5, as amended. Let the follow-up response be ok with \<^verbatim>\<open>needs_followup\<close> truthy and
  \<^verbatim>\<open>questions\<close> an array of N well-formed questions. Then exactly N prompts are shown,
  one per question in the order received, each presenting what the specification says (for
  a multiple-choice question with choices present: the question text, a line \<^verbatim>\<open>Valg:\<close>, and
  the choices each on a line starting with \<^verbatim>\<open>- \<close>). A cancelled prompt counts as the empty
  answer and the flow goes on: whatever the replies, the run makes exactly one finalize
  request after the follow-up request. Its answers object is keyed by the ids as property
  keys, that is, by the text each id prints (the number 1 and the string \<^verbatim>\<open>"1"\<close> are one
  key): it has one entry per distinct key, the key \<^verbatim>\<open>__proto__\<close> excepted; the entry of a
  key is the trimmed reply to the last question with that key; and it has exactly N
  entries when the keys are pairwise distinct and none is \<^verbatim>\<open>__proto__\<close>.
\<close>
theorem followup_prompts_and_answers:
  assumes "passes_validation s b"
    and "payload = Ticket (the (userId s)) (inquiry_value b)
                     (compose_description (inquiry_value b) (trim (Description_value b)))"
    and "fetch b followups_url payload = Response True followData"
    and "property followData ''needs_followup'' = Inr needs" and "truthy needs"
    and "field followData ''questions'' = Some (JArr qs)"
    and "\<forall>q\<in>set qs. well_formed_question q"
  shows "length (prompts (events (submitForm s b))) = length qs
       \<and> prompts (events (submitForm s b)) = map expected_prompt qs
       \<and> (\<forall>q cs. field q ''type'' = Some (JStr ''multiple_choice'')
                  \<and> field q ''choices'' = Some (JArr cs) \<and> cs \<noteq> [] \<longrightarrow>
            expected_prompt q =
              Some (JStr (printed (field q ''question'') @ ''\<newline>Valg:\<newline>- ''
                            @ join ''\<newline>- '' (map printed_choice cs))))
       \<and> (\<forall>i m. prompt b i m = None \<longrightarrow> reply b i m = [])
       \<and> (\<exists>answers.
            fetches (events (submitForm s b)) =
              [(followups_url, payload), (finalize_url, Answers (the (userId s)) answers)]
            \<and> distinct (map fst answers)
            \<and> fst ` set answers = question_key ` set qs - {''__proto__''}
            \<and> (\<forall>j<length qs.
                  question_key (qs ! j) \<noteq> ''__proto__''
                  \<and> (\<forall>j'. j < j' \<and> j' < length qs \<longrightarrow> question_key (qs ! j') \<noteq> question_key (qs ! j))
                  \<longrightarrow> map_of answers (question_key (qs ! j))
                        = Some (trim (reply b j (expected_prompt (qs ! j)))))
            \<and> (distinct (map question_key qs) \<and> ''__proto__'' \<notin> question_key ` set qs
                  \<longrightarrow> length answers = length qs))"
proof -
  let ?uid = "the (userId s)" and ?t = "inquiry_value b"
  let ?d = "compose_description (inquiry_value b) (trim (Description_value b))"
  have it: "iterate (field followData ''questions'') = Inr qs" by (simp add: assms(6))
  have n: "negotiate b ?uid ?t ?d =
           (Fetch followups_url payload # fst (finalize b ?uid (field followData ''questions'')),
            snd (finalize b ?uid (field followData ''questions'')))"
    using negotiate_followup [of b ?uid ?t ?d followData needs] assms(2-5) by simp
  have r: "submitForm s b = conclude s b (negotiate b ?uid ?t ?d)"
    unfolding submitForm_def by (rule submit_with_passes [OF assms(1)])
  from finalize_asked [OF it assms(7), of b ?uid] obtain ans
    where a: "snd (ask_all b 0 qs []) = Inr ans"
      and p: "prompts (fst (finalize b ?uid (field followData ''questions''))) = map expected_prompt qs"
      and f: "fetches (fst (finalize b ?uid (field followData ''questions'')))
                = [(finalize_url, Answers ?uid ans)]"
    by blast
  have 1: "prompts (events (submitForm s b)) = map expected_prompt qs"
    by (simp add: r prompts_conclude n p)
  have 2: "fetches (events (submitForm s b)) =
              [(followups_url, payload), (finalize_url, Answers ?uid ans)]"
    by (simp add: r fetches_conclude n f)
  have 3: "distinct (map fst ans)" using ask_all_distinct [OF a] by simp
  have 4: "fst ` set ans = question_key ` set qs - {''__proto__''}"
    using ask_all_keys [OF a] by simp
  have 5: "\<forall>j<length qs.
              question_key (qs ! j) \<noteq> ''__proto__''
              \<and> (\<forall>j'. j < j' \<and> j' < length qs \<longrightarrow> question_key (qs ! j') \<noteq> question_key (qs ! j))
              \<longrightarrow> map_of ans (question_key (qs ! j)) = Some (trim (reply b j (expected_prompt (qs ! j))))"
    using ask_all_last_write [OF a] by simp
  have 6: "distinct (map question_key qs) \<and> ''__proto__'' \<notin> question_key ` set qs
              \<longrightarrow> length ans = length qs"
    using ask_all_length [OF a] by simp
  have 7: "\<forall>i m. prompt b i m = None \<longrightarrow> reply b i m = []"
    by (simp add: reply_def)
  have 8: "\<forall>q cs. field q ''type'' = Some (JStr ''multiple_choice'')
                  \<and> field q ''choices'' = Some (JArr cs) \<and> cs \<noteq> [] \<longrightarrow>
            expected_prompt q =
              Some (JStr (printed (field q ''question'') @ ''\<newline>Valg:\<newline>- ''
                            @ join ''\<newline>- '' (map printed_choice cs)))"
    by (intro allI impI expected_prompt_choices) simp_all
  have ex: "\<exists>answers.
            fetches (events (submitForm s b)) =
              [(followups_url, payload), (finalize_url, Answers (the (userId s)) answers)]
            \<and> distinct (map fst answers)
            \<and> fst ` set answers = question_key ` set qs - {''__proto__''}
            \<and> (\<forall>j<length qs.
                  question_key (qs ! j) \<noteq> ''__proto__''
                  \<and> (\<forall>j'. j < j' \<and> j' < length qs \<longrightarrow> question_key (qs ! j') \<noteq> question_key (qs ! j))
                  \<longrightarrow> map_of answers (question_key (qs ! j))
                        = Some (trim (reply b j (expected_prompt (qs ! j)))))
            \<and> (distinct (map question_key qs) \<and> ''__proto__'' \<notin> question_key ` set qs
                  \<longrightarrow> length answers = length qs)"
    by (rule exI [of _ ans]) (intro conjI 2 3 4 5 6)
  from 1 have 0: "length (prompts (events (submitForm s b))) = length qs" by simp
  show ?thesis by (rule conjI [OF 0 conjI [OF 1 conjI [OF 8 conjI [OF 7 ex]]]])
qed

text \<open>
  Witness for C5: a multiple-choice question \<^verbatim>\<open>q1\<close> answered \<^verbatim>\<open>" B "\<close> and a free-text
  question \<^verbatim>\<open>q2\<close> that the user cancels.
\<close>
theorem followup_prompts_and_answers_witness:
  "prompts (events (submitForm user7
              (asking_form [question_product, question_since] [Some '' B '', None])))
     = [Some (JStr ''Which product?\<newline>Valg:\<newline>- A\<newline>- B''), Some (JStr ''Since when?'')]
   \<and> (\<exists>answers.
         fetches (events (submitForm user7
                    (asking_form [question_product, question_since] [Some '' B '', None])))
           = [(followups_url, billing_ticket), (finalize_url, Answers 7 answers)]
         \<and> length answers = 2
         \<and> map_of answers ''q1'' = Some ''B''
         \<and> map_of answers ''q2'' = Some [])"
proof -
  let ?qs = "[question_product, question_since]"
  let ?b = "asking_form ?qs [Some '' B '', None]"
  have wp: "well_formed_question question_product" by code_simp
  have ws: "well_formed_question question_since" by code_simp
  from wp ws have nn: "\<forall>q\<in>set ?qs. well_formed_question q" by simp
  have tr: "truthy (Some (JBool True))" by simp
  have u: "the (userId user7) = 7" by (simp add: user7_def)
  have k: "question_key question_product = ''q1''" "question_key question_since = ''q2''"
    by code_simp+
  have e: "expected_prompt question_product
             = Some (JStr ''Which product?\<newline>Valg:\<newline>- A\<newline>- B'')"
      "expected_prompt question_since = Some (JStr ''Since when?'')"
    by code_simp+
  have r: "trim (reply ?b 0 (expected_prompt question_product)) = ''B''"
      "trim (reply ?b 1 (expected_prompt question_since)) = []"
    by code_simp+
  from followup_prompts_and_answers [OF asking_validation asking_payload [symmetric]
      asking_followups asking_data_fields(1) tr asking_data_fields(2) nn, of "[Some '' B '', None]"]
  obtain answers where
    n: "length (prompts (events (submitForm user7 ?b))) = length ?qs" and
    p: "prompts (events (submitForm user7 ?b)) = map expected_prompt ?qs" and
    f: "fetches (events (submitForm user7 ?b))
          = [(followups_url, billing_ticket), (finalize_url, Answers (the (userId user7)) answers)]" and
    w: "\<forall>j<length ?qs.
          question_key (?qs ! j) \<noteq> ''__proto__''
          \<and> (\<forall>j'. j < j' \<and> j' < length ?qs \<longrightarrow> question_key (?qs ! j') \<noteq> question_key (?qs ! j))
          \<longrightarrow> map_of answers (question_key (?qs ! j))
                = Some (trim (reply ?b j (expected_prompt (?qs ! j))))" and
    l: "distinct (map question_key ?qs) \<and> ''__proto__'' \<notin> question_key ` set ?qs
          \<longrightarrow> length answers = length ?qs"
    by (elim conjE exE) 
  from l k have 1: "length answers = 2" by simp
  have later: "\<forall>j'. 0 < j' \<and> j' < length ?qs \<longrightarrow> question_key (?qs ! j') \<noteq> question_key (?qs ! 0)"
    by (auto simp: k less_Suc_eq)
  from w [rule_format, of 0] later k r have 2: "map_of answers ''q1'' = Some ''B''" by simp
  from w [rule_format, of 1] k r have 3: "map_of answers ''q2'' = Some []" by simp
  from p f e u 1 2 3 show ?thesis by auto
qed

text \<open>
  Counterexample to C5 as stated (the answers object has exactly N entries): the back end
  sends two questions that carry the same id \<^verbatim>\<open>q1\<close>. Both prompts are answered, and the
  finalize request holds one entry, the second answer having overwritten the first.
\<close>
theorem answer_entries_counterexample:
  "fetch (asking_form [question_product, question_again] [Some ''A'', Some ''no''])
       followups_url billing_ticket
     = Response True (JObj [(''needs_followup'', JBool True),
                            (''questions'', JArr [question_product, question_again])])
   \<and> prompts (events (submitForm user7
                (asking_form [question_product, question_again] [Some ''A'', Some ''no''])))
       = [Some (JStr ''Which product?\<newline>Valg:\<newline>- A\<newline>- B''), Some (JStr ''Anything else?'')]
   \<and> fetches (events (submitForm user7
                (asking_form [question_product, question_again] [Some ''A'', Some ''no''])))
       = [(followups_url, billing_ticket), (finalize_url, Answers 7 [(''q1'', ''no'')])]"
proof -
  let ?b = "asking_form [question_product, question_again] [Some ''A'', Some ''no'']"
  have "fetch ?b followups_url billing_ticket
     = Response True (JObj [(''needs_followup'', JBool True),
                            (''questions'', JArr [question_product, question_again])])"
    by (simp add: asking_followups asking_data_def)
  moreover have "prompts (events (submitForm user7 ?b))
       = [Some (JStr ''Which product?\<newline>Valg:\<newline>- A\<newline>- B''), Some (JStr ''Anything else?'')]"
    by code_simp
  moreover have "fetches (events (submitForm user7 ?b))
       = [(followups_url, billing_ticket), (finalize_url, Answers 7 [(''q1'', ''no'')])]"
    by code_simp
  ultimately show ?thesis by (intro conjI)
qed

end
